theory Spec2Isabelle
  imports Main "HOL-Library.AList"
begin

section \<open>The component focus manager: data model\<close>

text \<open>
  The development embeds the class \<^verbatim>\<open>ComponentFocusManager\<close>. Its private fields
  become the fields of one record, every method becomes a function from the state to
  the new state, and every call the manager makes on a collaborator (the console, a
  subscribed listener, the cache engine, an observer object) is appended to a log kept
  in the state, in the order in which the code makes it.

  Callbacks and collaborator objects are opaque: a listener, a cache handle, an
  observer and a DOM node are represented by a number that stands for the identity of
  the object. A listener call is recorded in the log; the listener itself is assumed
  not to call back into the manager and not to throw.
\<close>

type_synonym ComponentKey = string
type_synonym ComponentListener = nat
type_synonym QueryClient = nat

text \<open>
  A property of an options object is absent, present with the value
  \<^verbatim>\<open>undefined\<close>, or present with a value. An object spread copies every own
  property of its right operand, also one that holds \<^verbatim>\<open>undefined\<close>.
\<close>

datatype 'a jsprop = Absent | Undefined | Defined 'a

fun spread_prop :: "'a jsprop \<Rightarrow> 'a jsprop \<Rightarrow> 'a jsprop" where
  "spread_prop a Absent = a"
| "spread_prop a Undefined = Undefined"
| "spread_prop a (Defined v) = Defined v"

fun truthy :: "bool jsprop \<Rightarrow> bool" where
  "truthy (Defined b) = b"
| "truthy Undefined = False"
| "truthy Absent = False"

fun prop_value :: "'a jsprop \<Rightarrow> 'a option" where
  "prop_value (Defined v) = Some v"
| "prop_value Undefined = None"
| "prop_value Absent = None"

text \<open>
  The filter objects of the cache engine. The manager writes the properties
  \<^verbatim>\<open>type\<close> and \<^verbatim>\<open>refetchType\<close>; every other property is carried along
  unread.
\<close>

record QueryFilters =
  filterType :: "string option"
  refetchType :: "string option"
  otherFilters :: "(string \<times> string) list"

definition emptyFilters :: QueryFilters where
  "emptyFilters = \<lparr>filterType = None, refetchType = None, otherFilters = []\<rparr>"

fun spread_filters :: "QueryFilters option \<Rightarrow> QueryFilters" where
  "spread_filters None = emptyFilters"
| "spread_filters (Some f) = f"

record ComponentFocusManagerOptions =
  refetchOnFocus :: "bool jsprop"
  invalidateOnFocus :: "bool jsprop"
  resetOnFocus :: "bool jsprop"
  forceRefetch :: "bool jsprop"
  queryFilters :: "QueryFilters jsprop"

definition emptyOptions :: ComponentFocusManagerOptions where
  "emptyOptions = \<lparr>refetchOnFocus = Absent, invalidateOnFocus = Absent,
     resetOnFocus = Absent, forceRefetch = Absent, queryFilters = Absent\<rparr>"

definition spread_options ::
  "ComponentFocusManagerOptions \<Rightarrow> ComponentFocusManagerOptions \<Rightarrow> ComponentFocusManagerOptions" where
  "spread_options a b =
     \<lparr>refetchOnFocus = spread_prop (refetchOnFocus a) (refetchOnFocus b),
      invalidateOnFocus = spread_prop (invalidateOnFocus a) (invalidateOnFocus b),
      resetOnFocus = spread_prop (resetOnFocus a) (resetOnFocus b),
      forceRefetch = spread_prop (forceRefetch a) (forceRefetch b),
      queryFilters = spread_prop (queryFilters a) (queryFilters b)\<rparr>"

text \<open>Spreading \<^verbatim>\<open>undefined\<close> copies nothing.\<close>

fun spread_optional ::
  "ComponentFocusManagerOptions \<Rightarrow> ComponentFocusManagerOptions option \<Rightarrow> ComponentFocusManagerOptions" where
  "spread_optional a None = a"
| "spread_optional a (Some b) = spread_options a b"

text \<open>
  A registration record. The field \<open>ident\<close> is the identity of the record object: the
  closure returned by \<^verbatim>\<open>subscribeToComponent\<close> holds the object, not its key.
\<close>

record ComponentFocusState =
  focused :: bool
  queryClient :: "QueryClient option"
  listeners :: "ComponentListener list"
  options :: "ComponentFocusManagerOptions option"
  ident :: nat

datatype target = Document | Window | Element nat

datatype event =
    Warn string
  | Notify ComponentListener bool
  | ResetQueries QueryClient "QueryFilters option"
  | InvalidateQueries QueryClient QueryFilters
  | RefetchQueries QueryClient QueryFilters
  | IOObserve nat nat
  | IODisconnect nat
  | MOObserve nat nat
  | MODisconnect nat

text \<open>The functions the manager hands out: \<^verbatim>\<open>noop\<close> and its three closures.\<close>

datatype closure =
    Noop
  | Teardown ComponentKey nat nat nat
  | Unsubscribe nat ComponentListener
  | GlobalCleanup nat nat nat

record HTMLElement =
  node :: nat
  parentElement :: "nat option"

text \<open>
  The maps of the class are association lists in insertion order, read with
  \<^const>\<open>map_of\<close>. The list \<open>eventListeners\<close> is the host's table of attached event
  listeners, \<open>next_id\<close> supplies the identity of every object the manager creates.
\<close>

record manager =
  components :: "(ComponentKey \<times> ComponentFocusState) list"
  globalFocused :: bool
  intersectionObservers :: "(ComponentKey \<times> nat) list"
  mutationObservers :: "(ComponentKey \<times> nat) list"
  mgr_options :: ComponentFocusManagerOptions
  globalCleanup :: "closure option"
  eventListeners :: "(target \<times> string \<times> nat) list"
  next_id :: nat
  effects :: "event list"

section \<open>The operations\<close>

definition emit :: "event \<Rightarrow> manager \<Rightarrow> manager" where
  "emit e s = s\<lparr>effects := effects s @ [e]\<rparr>"

text \<open>
  A JavaScript \<^verbatim>\<open>Set\<close> keeps insertion order and ignores the insertion of a member;
  the listener table of an event target does the same, and removing a listener that is
  not attached does nothing.
\<close>

definition set_add :: "'a \<Rightarrow> 'a list \<Rightarrow> 'a list" where
  "set_add x xs = (if x \<in> set xs then xs else xs @ [x])"

definition addEventListener ::
  "target \<Rightarrow> string \<Rightarrow> nat \<Rightarrow> manager \<Rightarrow> manager" where
  "addEventListener t ty h s = s\<lparr>eventListeners := set_add (t, ty, h) (eventListeners s)\<rparr>"

definition removeEventListener ::
  "target \<Rightarrow> string \<Rightarrow> nat \<Rightarrow> manager \<Rightarrow> manager" where
  "removeEventListener t ty h s = s\<lparr>eventListeners := removeAll (t, ty, h) (eventListeners s)\<rparr>"

definition defaultOptions :: ComponentFocusManagerOptions where
  "defaultOptions = \<lparr>refetchOnFocus = Defined True, invalidateOnFocus = Defined True,
     resetOnFocus = Defined False, forceRefetch = Defined True, queryFilters = Absent\<rparr>"

definition setupGlobalFocusListener :: "bool \<Rightarrow> manager \<Rightarrow> closure option \<times> manager" where
  "setupGlobalFocusListener hasDocument s =
     (if \<not> hasDocument then (None, s)
      else
        let handleVisibilityChange = next_id s;
            handleWindowFocus = Suc (next_id s);
            handleWindowBlur = Suc (Suc (next_id s));
            s1 = s\<lparr>next_id := Suc (Suc (Suc (next_id s)))\<rparr>;
            s2 = addEventListener Document ''visibilitychange'' handleVisibilityChange s1;
            s3 = addEventListener Window ''focus'' handleWindowFocus s2;
            s4 = addEventListener Window ''blur'' handleWindowBlur s3
        in (Some (GlobalCleanup handleVisibilityChange handleWindowFocus handleWindowBlur), s4))"

text \<open>
  The constructor. \<open>hasDocument\<close> is the negation of
  \<^verbatim>\<open>isServer || typeof document === 'undefined'\<close>; a missing argument is the empty
  options object.
\<close>

definition new_ComponentFocusManager ::
  "bool \<Rightarrow> ComponentFocusManagerOptions option \<Rightarrow> manager" where
  "new_ComponentFocusManager hasDocument opts =
     (let s0 = \<lparr>components = [], globalFocused = True, intersectionObservers = [],
                mutationObservers = [],
                mgr_options = spread_options defaultOptions
                  (case opts of None \<Rightarrow> emptyOptions | Some b \<Rightarrow> b),
                globalCleanup = None, eventListeners = [], next_id = 0, effects = []\<rparr>;
          (cleanup, s1) = setupGlobalFocusListener hasDocument s0
      in s1\<lparr>globalCleanup := cleanup\<rparr>)"

definition unregisterComponent :: "ComponentKey \<Rightarrow> manager \<Rightarrow> manager" where
  "unregisterComponent componentKey s =
     (let s1 = (case map_of (intersectionObservers s) componentKey of
                  Some intersectionObserver \<Rightarrow>
                    (emit (IODisconnect intersectionObserver) s)
                      \<lparr>intersectionObservers := AList.delete componentKey (intersectionObservers s)\<rparr>
                | None \<Rightarrow> s);
          s2 = (case map_of (mutationObservers s1) componentKey of
                  Some mutationObserver \<Rightarrow>
                    (emit (MODisconnect mutationObserver) s1)
                      \<lparr>mutationObservers := AList.delete componentKey (mutationObservers s1)\<rparr>
                | None \<Rightarrow> s1)
      in s2\<lparr>components := AList.delete componentKey (components s2)\<rparr>)"

definition handleComponentFocus ::
  "QueryClient \<Rightarrow> ComponentFocusManagerOptions option \<Rightarrow> manager \<Rightarrow> manager" where
  "handleComponentFocus qc componentOptions s =
     (let opts = spread_optional (mgr_options s) componentOptions;
          qf = prop_value (queryFilters opts)
      in if truthy (resetOnFocus opts) then emit (ResetQueries qc qf) s
         else if truthy (invalidateOnFocus opts) then
           (let rt = (if truthy (forceRefetch opts) then ''all'' else ''active'')
            in emit (InvalidateQueries qc ((spread_filters qf)\<lparr>refetchType := Some rt\<rparr>)) s)
         else if truthy (refetchOnFocus opts) then
           emit (RefetchQueries qc ((spread_filters qf)\<lparr>filterType := Some ''active''\<rparr>)) s
         else s)"

definition setComponentFocus :: "ComponentKey \<Rightarrow> bool \<Rightarrow> manager \<Rightarrow> manager" where
  "setComponentFocus componentKey fo s =
     (case map_of (components s) componentKey of
        None \<Rightarrow> s
      | Some component \<Rightarrow>
          (let previouslyFocused = focused component;
               s1 = s\<lparr>components :=
                      AList.map_entry componentKey (\<lambda>c. c\<lparr>focused := fo\<rparr>) (components s)\<rparr>
           in if previouslyFocused \<noteq> fo then
                (let s2 = fold (\<lambda>listener. emit (Notify listener fo)) (listeners component) s1
                 in (case queryClient component of
                       Some qc \<Rightarrow>
                         if fo then handleComponentFocus qc (options component) s2 else s2
                     | None \<Rightarrow> s2))
              else s1))"

definition subscribeToComponent ::
  "ComponentKey \<Rightarrow> ComponentListener \<Rightarrow> manager \<Rightarrow> closure \<times> manager" where
  "subscribeToComponent componentKey listener s =
     (case map_of (components s) componentKey of
        None \<Rightarrow>
          (Noop, emit (Warn (''Component '' @ componentKey @ '' is not registered'')) s)
      | Some component \<Rightarrow>
          (let s1 = s\<lparr>components :=
                      AList.map_entry componentKey
                        (\<lambda>c. c\<lparr>listeners := set_add listener (listeners c)\<rparr>) (components s)\<rparr>
           in (Unsubscribe (ident component) listener,
               emit (Notify listener (focused component)) s1)))"

text \<open>
  \<^verbatim>\<open>registerComponent\<close> creates, in this order, the record, the intersection
  observer, the mutation observer when the element has a parent, and the two pointer
  handlers; each takes the next free identity. The callbacks themselves are the
  functions \<open>intersectionCallback\<close>, \<open>mutationCallback\<close>, \<open>handleMouseEnter\<close> and
  \<open>handleMouseLeave\<close> below, which the host calls with the key of the registration.
\<close>

definition registerComponent ::
  "ComponentKey \<Rightarrow> HTMLElement option \<Rightarrow> QueryClient option \<Rightarrow>
     ComponentFocusManagerOptions option \<Rightarrow> manager \<Rightarrow> closure \<times> manager" where
  "registerComponent componentKey element qc componentOptions s =
     (case element of
        None \<Rightarrow>
          (Noop, emit (Warn (''ComponentFocusManager: Element not found for component ''
                               @ componentKey)) s)
      | Some el \<Rightarrow>
          (let s1 = unregisterComponent componentKey s;
               componentState = \<lparr>focused = False, queryClient = qc, listeners = [],
                                 options = componentOptions, ident = next_id s1\<rparr>;
               s2 = s1\<lparr>components := AList.update componentKey componentState (components s1),
                       next_id := Suc (next_id s1)\<rparr>;
               intersectionObserver = next_id s2;
               s3 = (emit (IOObserve intersectionObserver (node el)) s2)
                      \<lparr>intersectionObservers :=
                         AList.update componentKey intersectionObserver (intersectionObservers s2),
                       next_id := Suc (next_id s2)\<rparr>;
               s4 = (case parentElement el of
                       Some parent \<Rightarrow>
                         (let mutationObserver = next_id s3
                          in (emit (MOObserve mutationObserver parent) s3)
                               \<lparr>mutationObservers :=
                                  AList.update componentKey mutationObserver (mutationObservers s3),
                                next_id := Suc (next_id s3)\<rparr>)
                     | None \<Rightarrow> s3);
               handleMouseEnter = next_id s4;
               handleMouseLeave = Suc (next_id s4);
               s5 = s4\<lparr>next_id := Suc (Suc (next_id s4))\<rparr>;
               s6 = addEventListener (Element (node el)) ''mouseenter'' handleMouseEnter s5;
               s7 = addEventListener (Element (node el)) ''mouseleave'' handleMouseLeave s6
           in (Teardown componentKey (node el) handleMouseEnter handleMouseLeave, s7)))"

definition isComponentFocused :: "ComponentKey \<Rightarrow> manager \<Rightarrow> bool" where
  "isComponentFocused componentKey s =
     (case map_of (components s) componentKey of
        Some component \<Rightarrow> focused component
      | None \<Rightarrow> False)"

definition isGloballyFocused :: "manager \<Rightarrow> bool" where
  "isGloballyFocused s = globalFocused s"

definition notifyAllComponents :: "manager \<Rightarrow> manager" where
  "notifyAllComponents s =
     (if globalFocused s then s
      else fold (\<lambda>componentKey. setComponentFocus componentKey False)
             (map fst (components s)) s)"

definition handleVisibilityChange :: "string \<Rightarrow> manager \<Rightarrow> manager" where
  "handleVisibilityChange visibilityState s =
     notifyAllComponents (s\<lparr>globalFocused := (visibilityState = ''visible'')\<rparr>)"

definition handleWindowFocus :: "manager \<Rightarrow> manager" where
  "handleWindowFocus s = notifyAllComponents (s\<lparr>globalFocused := True\<rparr>)"

definition handleWindowBlur :: "manager \<Rightarrow> manager" where
  "handleWindowBlur s = notifyAllComponents (s\<lparr>globalFocused := False\<rparr>)"

definition focusComponent :: "ComponentKey \<Rightarrow> manager \<Rightarrow> manager" where
  "focusComponent componentKey s = setComponentFocus componentKey True s"

definition blurComponent :: "ComponentKey \<Rightarrow> manager \<Rightarrow> manager" where
  "blurComponent componentKey s = setComponentFocus componentKey False s"

definition blurAllComponents :: "manager \<Rightarrow> manager" where
  "blurAllComponents s =
     fold (\<lambda>componentKey. setComponentFocus componentKey False) (map fst (components s)) s"

definition getRegisteredComponents :: "manager \<Rightarrow> ComponentKey list" where
  "getRegisteredComponents s = map fst (components s)"

definition updateComponentQueryClient :: "ComponentKey \<Rightarrow> QueryClient \<Rightarrow> manager \<Rightarrow> manager" where
  "updateComponentQueryClient componentKey qc s =
     (case map_of (components s) componentKey of
        None \<Rightarrow> s
      | Some component \<Rightarrow>
          s\<lparr>components :=
              AList.map_entry componentKey (\<lambda>c. c\<lparr>queryClient := Some qc\<rparr>) (components s)\<rparr>)"

definition updateComponentOptions ::
  "ComponentKey \<Rightarrow> ComponentFocusManagerOptions \<Rightarrow> manager \<Rightarrow> manager" where
  "updateComponentOptions componentKey opts s =
     (case map_of (components s) componentKey of
        None \<Rightarrow> s
      | Some component \<Rightarrow>
          s\<lparr>components :=
              AList.map_entry componentKey
                (\<lambda>c. c\<lparr>options := Some (spread_options (spread_optional emptyOptions (options c)) opts)\<rparr>)
                (components s)\<rparr>)"

text \<open>
  Calling a function the manager returned. The teardown of a registration removes the
  two pointer handlers of that registration from its element and unregisters the key;
  the unsubscribe closure deletes the listener from the record object it captured.
\<close>

fun call :: "closure \<Rightarrow> manager \<Rightarrow> manager" where
  "call Noop s = s"
| "call (Teardown componentKey el handleMouseEnter handleMouseLeave) s =
     unregisterComponent componentKey
       (removeEventListener (Element el) ''mouseleave'' handleMouseLeave
         (removeEventListener (Element el) ''mouseenter'' handleMouseEnter s))"
| "call (Unsubscribe obj listener) s =
     s\<lparr>components :=
         map (\<lambda>(k, c). if ident c = obj then (k, c\<lparr>listeners := removeAll listener (listeners c)\<rparr>)
                        else (k, c))
           (components s)\<rparr>"
| "call (GlobalCleanup hv hf hb) s =
     removeEventListener Window ''blur'' hb
       (removeEventListener Window ''focus'' hf
         (removeEventListener Document ''visibilitychange'' hv s))"

text \<open>
  The callbacks the manager installs on the host for one registration. An intersection
  entry is its \<^verbatim>\<open>isIntersecting\<close> flag, a mutation is the length of its
  \<^verbatim>\<open>removedNodes\<close>; whether the document still contains the element and whether
  the bounding rectangle of the element meets the viewport are answers of the host.
\<close>

definition intersectionCallback :: "ComponentKey \<Rightarrow> bool list \<Rightarrow> manager \<Rightarrow> manager" where
  "intersectionCallback componentKey entries s =
     fold (\<lambda>isIntersecting s'.
             setComponentFocus componentKey (isIntersecting \<and> globalFocused s') s')
       entries s"

definition mutationCallback :: "ComponentKey \<Rightarrow> nat list \<Rightarrow> bool \<Rightarrow> manager \<Rightarrow> manager" where
  "mutationCallback componentKey removedNodesLengths documentContainsElement s =
     (let hasRemovedNodes = list_ex (\<lambda>n. n > 0) removedNodesLengths
      in if hasRemovedNodes \<and> \<not> documentContainsElement
         then unregisterComponent componentKey s else s)"

definition handleMouseEnter :: "ComponentKey \<Rightarrow> manager \<Rightarrow> manager" where
  "handleMouseEnter componentKey s =
     (if globalFocused s then setComponentFocus componentKey True s else s)"

definition handleMouseLeave :: "ComponentKey \<Rightarrow> bool \<Rightarrow> manager \<Rightarrow> manager" where
  "handleMouseLeave componentKey isInViewport s =
     (if \<not> isInViewport then setComponentFocus componentKey False s else s)"

definition destroy :: "manager \<Rightarrow> manager" where
  "destroy s =
     (let s1 = fold unregisterComponent (map fst (components s)) s;
          s2 = (case globalCleanup s1 of Some c \<Rightarrow> call c s1 | None \<Rightarrow> s1)
      in s2\<lparr>globalCleanup := None\<rparr>)"

section \<open>Notions used in the statements\<close>

text \<open>The events an operation appended to the log, given the state before and after.\<close>

definition emitted :: "manager \<Rightarrow> manager \<Rightarrow> event list" where
  "emitted s s' = drop (length (effects s)) (effects s')"

fun is_cache_action :: "event \<Rightarrow> bool" where
  "is_cache_action (ResetQueries qc f) = True"
| "is_cache_action (InvalidateQueries qc f) = True"
| "is_cache_action (RefetchQueries qc f) = True"
| "is_cache_action e = False"

fun is_notification :: "event \<Rightarrow> bool" where
  "is_notification (Notify l b) = True"
| "is_notification e = False"

text \<open>
  The cache call of \<^const>\<open>handleComponentFocus\<close> as a function of the merged options:
  the closed form of its three tests, used to calculate with the log.
\<close>

definition refreshActions :: "QueryClient \<Rightarrow> ComponentFocusManagerOptions \<Rightarrow> event list" where
  "refreshActions qc opts =
     (if truthy (resetOnFocus opts) then [ResetQueries qc (prop_value (queryFilters opts))]
      else if truthy (invalidateOnFocus opts) then
        [InvalidateQueries qc
           ((spread_filters (prop_value (queryFilters opts)))
              \<lparr>refetchType := Some (if truthy (forceRefetch opts) then ''all'' else ''active'')\<rparr>)]
      else if truthy (refetchOnFocus opts) then
        [RefetchQueries qc
           ((spread_filters (prop_value (queryFilters opts)))\<lparr>filterType := Some ''active''\<rparr>)]
      else [])"

text \<open>The record that \<^const>\<open>registerComponent\<close> creates.\<close>

definition newRecord :: "QueryClient option \<Rightarrow> ComponentFocusManagerOptions option \<Rightarrow> nat \<Rightarrow> ComponentFocusState" where
  "newRecord qc co i = \<lparr>focused = False, queryClient = qc, listeners = [], options = co, ident = i\<rparr>"

text \<open>
  The invariant of the three maps: keys are not repeated, an observer is kept only for
  a registered key, the identity of every observer was handed out before, and no
  observer is kept twice.
\<close>

definition wellformed :: "manager \<Rightarrow> bool" where
  "wellformed s \<longleftrightarrow>
     distinct (map fst (components s)) \<and>
     fst ` set (intersectionObservers s) \<subseteq> fst ` set (components s) \<and>
     fst ` set (mutationObservers s) \<subseteq> fst ` set (components s) \<and>
     (\<forall>p \<in> set (intersectionObservers s). snd p < next_id s) \<and>
     (\<forall>p \<in> set (mutationObservers s). snd p < next_id s) \<and>
     distinct (map snd (intersectionObservers s) @ map snd (mutationObservers s))"

text \<open>
  The states a manager can be in: the constructor's, and whatever a public method, a
  returned closure or an installed callback makes of such a state.
\<close>

inductive reachable :: "manager \<Rightarrow> bool" where
  r_new: "reachable (new_ComponentFocusManager hasDocument opts)"
| r_register: "reachable s \<Longrightarrow> reachable (snd (registerComponent k el qc co s))"
| r_unregister: "reachable s \<Longrightarrow> reachable (unregisterComponent k s)"
| r_setFocus: "reachable s \<Longrightarrow> reachable (setComponentFocus k v s)"
| r_subscribe: "reachable s \<Longrightarrow> reachable (snd (subscribeToComponent k l s))"
| r_call: "reachable s \<Longrightarrow> reachable (call c s)"
| r_visibility: "reachable s \<Longrightarrow> reachable (handleVisibilityChange vs s)"
| r_windowFocus: "reachable s \<Longrightarrow> reachable (handleWindowFocus s)"
| r_windowBlur: "reachable s \<Longrightarrow> reachable (handleWindowBlur s)"
| r_blurAll: "reachable s \<Longrightarrow> reachable (blurAllComponents s)"
| r_updateClient: "reachable s \<Longrightarrow> reachable (updateComponentQueryClient k qc s)"
| r_updateOptions: "reachable s \<Longrightarrow> reachable (updateComponentOptions k o' s)"
| r_intersection: "reachable s \<Longrightarrow> reachable (intersectionCallback k entries s)"
| r_mutation: "reachable s \<Longrightarrow> reachable (mutationCallback k ms inDoc s)"
| r_mouseEnter: "reachable s \<Longrightarrow> reachable (handleMouseEnter k s)"
| r_mouseLeave: "reachable s \<Longrightarrow> reachable (handleMouseLeave k inView s)"
| r_destroy: "reachable s \<Longrightarrow> reachable (destroy s)"

text \<open>
  A manager used to instantiate the statements: key \<open>a\<close> is registered on an element
  with a parent, with cache handle 7 and the listeners 1 and 2, and is not focused; key
  \<open>b\<close> is registered on an element without parent, without cache handle, with the
  listener 3, and is focused.
\<close>

definition exManager :: manager where
  "exManager =
     (let s0 = new_ComponentFocusManager True None;
          s1 = snd (registerComponent ''a'' (Some \<lparr>node = 10, parentElement = Some 11\<rparr>)
                      (Some 7) None s0);
          s2 = snd (subscribeToComponent ''a'' 1 s1);
          s3 = snd (subscribeToComponent ''a'' 2 s2);
          s4 = snd (registerComponent ''b'' (Some \<lparr>node = 20, parentElement = None\<rparr>)
                      None None s3);
          s5 = snd (subscribeToComponent ''b'' 3 s4)
      in setComponentFocus ''b'' True s5)"

section \<open>Closed forms of the operations\<close>


lemma emit_fields [simp]:
  "components (emit e s) = components s"
  "globalFocused (emit e s) = globalFocused s"
  "intersectionObservers (emit e s) = intersectionObservers s"
  "mutationObservers (emit e s) = mutationObservers s"
  "mgr_options (emit e s) = mgr_options s"
  "globalCleanup (emit e s) = globalCleanup s"
  "eventListeners (emit e s) = eventListeners s"
  "next_id (emit e s) = next_id s"
  "effects (emit e s) = effects s @ [e]"
  by (simp_all add: emit_def)

lemma fold_emit:
  "fold (\<lambda>l. emit (f l)) ls s = s\<lparr>effects := effects s @ map f ls\<rparr>"
  by (induction ls arbitrary: s) (simp_all add: emit_def)

lemma handleComponentFocus_eq:
  "handleComponentFocus qc co s =
     s\<lparr>effects := effects s @ refreshActions qc (spread_optional (mgr_options s) co)\<rparr>"
  by (simp add: handleComponentFocus_def refreshActions_def emit_def Let_def)

lemma map_fst_map_entry [simp]: "map fst (AList.map_entry k f xs) = map fst xs"
  by (induction xs) auto

lemma map_entry_triv: "map_of xs k = Some v \<Longrightarrow> f v = v \<Longrightarrow> AList.map_entry k f xs = xs"
  by (induction xs) (auto split: if_splits)

lemma map_entry_absent: "map_of xs k = None \<Longrightarrow> AList.map_entry k f xs = xs"
  by (induction xs) (auto split: if_splits)

lemma setComponentFocus_eq:
  "setComponentFocus k v s =
     (case map_of (components s) k of
        None \<Rightarrow> s
      | Some c \<Rightarrow>
          s\<lparr>components := AList.map_entry k (\<lambda>c. c\<lparr>focused := v\<rparr>) (components s),
            effects := effects s @
              (if focused c = v then []
               else map (\<lambda>l. Notify l v) (listeners c) @
                 (if v then (case queryClient c of None \<Rightarrow> []
                             | Some qc \<Rightarrow> refreshActions qc (spread_optional (mgr_options s) (options c)))
                  else []))\<rparr>)"
  by (simp add: setComponentFocus_def fold_emit handleComponentFocus_eq Let_def split: option.splits)

lemma delete_absent: "map_of al k = None \<Longrightarrow> AList.delete k al = al"
  by (simp add: map_of_eq_None_iff)

lemma unregisterComponent_eq:
  "unregisterComponent k s =
     s\<lparr>intersectionObservers := AList.delete k (intersectionObservers s),
       mutationObservers := AList.delete k (mutationObservers s),
       components := AList.delete k (components s),
       effects := effects s @
         (case map_of (intersectionObservers s) k of Some ob \<Rightarrow> [IODisconnect ob] | None \<Rightarrow> []) @
         (case map_of (mutationObservers s) k of Some ob \<Rightarrow> [MODisconnect ob] | None \<Rightarrow> [])\<rparr>"
  by (cases "map_of (intersectionObservers s) k"; cases "map_of (mutationObservers s) k")
     (simp_all add: unregisterComponent_def emit_def Let_def delete_absent)


lemma subscribeToComponent_eq:
  "subscribeToComponent k l s =
     (case map_of (components s) k of
        None \<Rightarrow> (Noop, s\<lparr>effects := effects s @ [Warn (''Component '' @ k @ '' is not registered'')]\<rparr>)
      | Some c \<Rightarrow>
          (Unsubscribe (ident c) l,
           s\<lparr>components := AList.map_entry k (\<lambda>c. c\<lparr>listeners := set_add l (listeners c)\<rparr>) (components s),
             effects := effects s @ [Notify l (focused c)]\<rparr>))"
  by (simp add: subscribeToComponent_def emit_def Let_def split: option.splits)

lemma update_absent: "k \<notin> fst ` set al \<Longrightarrow> AList.update k v al = al @ [(k, v)]"
  by (induction al) auto

lemma update_delete: "AList.update k v (AList.delete k al) = AList.delete k al @ [(k, v)]"
  by (rule update_absent) (rule delete_notin_dom)

lemma registerComponent_Some_eq:
  "registerComponent k (Some el) qc co s =
     (let n = next_id s;
          m = (case parentElement el of Some p \<Rightarrow> 1 | None \<Rightarrow> 0)
      in (Teardown k (node el) (n + 2 + m) (n + 3 + m),
          s\<lparr>components := AList.delete k (components s) @ [(k, newRecord qc co n)],
            intersectionObservers := AList.delete k (intersectionObservers s) @ [(k, Suc n)],
            mutationObservers :=
              AList.delete k (mutationObservers s) @
                (case parentElement el of Some p \<Rightarrow> [(k, Suc (Suc n))] | None \<Rightarrow> []),
            eventListeners :=
              set_add (Element (node el), ''mouseleave'', n + 3 + m)
                (set_add (Element (node el), ''mouseenter'', n + 2 + m) (eventListeners s)),
            next_id := n + 4 + m,
            effects := effects s @
              (case map_of (intersectionObservers s) k of Some ob \<Rightarrow> [IODisconnect ob] | None \<Rightarrow> []) @
              (case map_of (mutationObservers s) k of Some ob \<Rightarrow> [MODisconnect ob] | None \<Rightarrow> []) @
              [IOObserve (Suc n) (node el)] @
              (case parentElement el of Some p \<Rightarrow> [MOObserve (Suc (Suc n)) p] | None \<Rightarrow> [])\<rparr>))"
  by (cases "parentElement el")
     (simp_all add: registerComponent_def unregisterComponent_eq addEventListener_def
        emit_def Let_def update_delete newRecord_def eval_nat_numeral)


lemma map_entry_split:
  "k \<notin> fst ` set pre \<Longrightarrow>
   AList.map_entry k f (pre @ (k, c) # post) = pre @ (k, f c) # post"
  by (induction pre) auto

lemma map_of_split:
  "k \<notin> fst ` set pre \<Longrightarrow> map_of (pre @ (k, c) # post) k = Some c"
  by (induction pre) auto

lemma blur_fold:
  "distinct (map fst (pre @ post)) \<Longrightarrow> components s = pre @ post \<Longrightarrow>
   fold (\<lambda>k. setComponentFocus k False) (map fst post) s =
     s\<lparr>components := pre @ map (\<lambda>(k, c). (k, c\<lparr>focused := False\<rparr>)) post,
       effects := effects s @
         concat (map (\<lambda>(k, c). if focused c then map (\<lambda>l. Notify l False) (listeners c) else [])
                   post)\<rparr>"
proof (induction post arbitrary: s pre)
  case Nil
  then show ?case by simp
next
  case (Cons p post)
  obtain k c where p: "p = (k, c)" by (cases p)
  from Cons.prems p have notin: "k \<notin> fst ` set pre" by auto
  let ?s1 = "setComponentFocus k False s"
  have s1: "?s1 = s\<lparr>components := pre @ (k, c\<lparr>focused := False\<rparr>) # post,
                    effects := effects s @
                      (if focused c then map (\<lambda>l. Notify l False) (listeners c) else [])\<rparr>"
  proof -
    have m: "map_of (components s) k = Some c"
      unfolding Cons.prems(2) p by (rule map_of_split [OF notin])
    have e: "AList.map_entry k (\<lambda>c. c\<lparr>focused := False\<rparr>) (components s) =
             pre @ (k, c\<lparr>focused := False\<rparr>) # post"
      unfolding Cons.prems(2) p by (rule map_entry_split [OF notin])
    show ?thesis
      by (simp add: setComponentFocus_eq m e)
  qed
  have d: "distinct (map fst ((pre @ [(k, c\<lparr>focused := False\<rparr>)]) @ post))"
    using Cons.prems(1) p by simp
  have c1: "components ?s1 = (pre @ [(k, c\<lparr>focused := False\<rparr>)]) @ post"
    by (simp add: s1)
  have "fold (\<lambda>k. setComponentFocus k False) (map fst (p # post)) s =
        fold (\<lambda>k. setComponentFocus k False) (map fst post) ?s1"
    by (simp add: p)
  also have "\<dots> = ?s1\<lparr>components :=
                       (pre @ [(k, c\<lparr>focused := False\<rparr>)]) @
                         map (\<lambda>(k, c). (k, c\<lparr>focused := False\<rparr>)) post,
                     effects := effects ?s1 @
                       concat (map (\<lambda>(k, c). if focused c then map (\<lambda>l. Notify l False) (listeners c)
                                                else []) post)\<rparr>"
    by (rule Cons.IH [OF d c1])
  also have "\<dots> = s\<lparr>components := pre @ map (\<lambda>(k, c). (k, c\<lparr>focused := False\<rparr>)) (p # post),
                    effects := effects s @
                      concat (map (\<lambda>(k, c). if focused c then map (\<lambda>l. Notify l False) (listeners c)
                                               else []) (p # post))\<rparr>"
    by (simp add: s1 p)
  finally show ?case .
qed

lemma blurAllComponents_eq:
  "distinct (map fst (components s)) \<Longrightarrow>
   blurAllComponents s =
     s\<lparr>components := map (\<lambda>(k, c). (k, c\<lparr>focused := False\<rparr>)) (components s),
       effects := effects s @
         concat (map (\<lambda>(k, c). if focused c then map (\<lambda>l. Notify l False) (listeners c) else [])
                   (components s))\<rparr>"
  unfolding blurAllComponents_def
  using blur_fold [of "[]" "components s" s] by simp

lemma fold_preserves:
  "(\<And>x s. P s \<Longrightarrow> P (f x s)) \<Longrightarrow> P s \<Longrightarrow> P (fold f xs s)"
  by (induction xs arbitrary: s) simp_all

lemma unsub_keys:
  "map fst (map (\<lambda>(k, c). if g c then (k, h c) else (k, c)) xs) = map fst xs"
  by (induction xs) auto

lemma wf_same_keys:
  assumes "wellformed s"
    and k: "map fst (components s') = map fst (components s)"
    and "intersectionObservers s' = intersectionObservers s"
    and "mutationObservers s' = mutationObservers s"
    and "next_id s' = next_id s"
  shows "wellformed s'"
proof -
  have "fst ` set (components s') = fst ` set (components s)"
    using arg_cong [OF k, of set] by (simp only: set_map)
  with assms show ?thesis
    by (simp add: wellformed_def)
qed

lemma wf_new: "wellformed (new_ComponentFocusManager doc opts)"
  by (simp add: wellformed_def new_ComponentFocusManager_def setupGlobalFocusListener_def
        addEventListener_def Let_def)

lemma dom_delete: "fst ` set (AList.delete k al) = fst ` set al - {k}"
  by (induction al) auto

lemma set_delete_subset: "p \<in> set (AList.delete k al) \<Longrightarrow> p \<in> set al"
  by (simp add: AList.delete_eq)

lemma wf_unregister:
  assumes w: "wellformed s"
  shows "wellformed (unregisterComponent k s)"
proof -
  let ?s' = "unregisterComponent k s"
  have c: "components ?s' = AList.delete k (components s)"
    and io: "intersectionObservers ?s' = AList.delete k (intersectionObservers s)"
    and mo: "mutationObservers ?s' = AList.delete k (mutationObservers s)"
    and n: "next_id ?s' = next_id s"
    by (simp_all add: unregisterComponent_eq)
  from w have d: "distinct (map fst (components s))"
    and i1: "fst ` set (intersectionObservers s) \<subseteq> fst ` set (components s)"
    and m1: "fst ` set (mutationObservers s) \<subseteq> fst ` set (components s)"
    and i2: "\<And>p. p \<in> set (intersectionObservers s) \<Longrightarrow> snd p < next_id s"
    and m2: "\<And>p. p \<in> set (mutationObservers s) \<Longrightarrow> snd p < next_id s"
    by (simp_all add: wellformed_def)
  have 1: "distinct (map fst (components ?s'))"
    using d by (simp add: c distinct_delete)
  have 2: "fst ` set (intersectionObservers ?s') \<subseteq> fst ` set (components ?s')"
    using i1 by (auto simp add: c io dom_delete)
  have 3: "fst ` set (mutationObservers ?s') \<subseteq> fst ` set (components ?s')"
    using m1 by (auto simp add: c mo dom_delete)
  have 4: "snd p < next_id ?s'" if "p \<in> set (intersectionObservers ?s')" for p
    using that i2 [of p] by (auto simp add: io n dest: set_delete_subset)
  have 5: "snd p < next_id ?s'" if "p \<in> set (mutationObservers ?s')" for p
    using that m2 [of p] by (auto simp add: mo n dest: set_delete_subset)
  from w have "distinct (map snd (intersectionObservers s) @ map snd (mutationObservers s))"
    by (simp add: wellformed_def)
  then have 6: "distinct (map snd (intersectionObservers ?s') @ map snd (mutationObservers ?s'))"
    by (auto simp add: io mo AList.delete_eq distinct_map_filter)
  show ?thesis
    unfolding wellformed_def using 1 2 3 4 5 6 by blast
qed

lemma wf_register_Some:
  assumes w: "wellformed s"
  shows "wellformed (snd (registerComponent k (Some e) qc co s))"
proof -
  let ?s' = "snd (registerComponent k (Some e) qc co s)"
  have c: "components ?s' = AList.delete k (components s) @ [(k, newRecord qc co (next_id s))]"
    by (simp add: registerComponent_Some_eq Let_def)
  have io: "intersectionObservers ?s' =
              AList.delete k (intersectionObservers s) @ [(k, Suc (next_id s))]"
    by (simp add: registerComponent_Some_eq Let_def)
  have mo: "mutationObservers ?s' =
              AList.delete k (mutationObservers s) @
                (case parentElement e of Some p \<Rightarrow> [(k, Suc (Suc (next_id s)))] | None \<Rightarrow> [])"
    by (simp add: registerComponent_Some_eq Let_def)
  have n: "next_id ?s' = next_id s + 4 + (case parentElement e of Some p \<Rightarrow> 1 | None \<Rightarrow> 0)"
    by (simp add: registerComponent_Some_eq Let_def)
  from w have d: "distinct (map fst (components s))"
    and i1: "fst ` set (intersectionObservers s) \<subseteq> fst ` set (components s)"
    and m1: "fst ` set (mutationObservers s) \<subseteq> fst ` set (components s)"
    and i2: "\<And>p. p \<in> set (intersectionObservers s) \<Longrightarrow> snd p < next_id s"
    and m2: "\<And>p. p \<in> set (mutationObservers s) \<Longrightarrow> snd p < next_id s"
    by (simp_all add: wellformed_def)
  have 1: "distinct (map fst (components ?s'))"
    using d by (simp add: c distinct_delete dom_delete)
  have 2: "fst ` set (intersectionObservers ?s') \<subseteq> fst ` set (components ?s')"
    using i1 by (auto simp add: c io dom_delete image_Un)
  have 3: "fst ` set (mutationObservers ?s') \<subseteq> fst ` set (components ?s')"
    using m1 by (cases "parentElement e") (auto simp add: c mo dom_delete image_Un)
  have 4: "snd p < next_id ?s'" if "p \<in> set (intersectionObservers ?s')" for p
  proof -
    from that have "p \<in> set (intersectionObservers s) \<or> p = (k, Suc (next_id s))"
      by (auto simp add: io dest: set_delete_subset)
    then show ?thesis using i2 [of p] by (auto simp add: n)
  qed
  have 5: "snd p < next_id ?s'" if "p \<in> set (mutationObservers ?s')" for p
  proof -
    from that have "p \<in> set (mutationObservers s) \<or> p = (k, Suc (Suc (next_id s)))"
      by (cases "parentElement e") (auto simp add: mo dest: set_delete_subset)
    then show ?thesis using m2 [of p] by (auto simp add: n)
  qed
  from w have o: "distinct (map snd (intersectionObservers s) @ map snd (mutationObservers s))"
    by (simp add: wellformed_def)
  have di: "distinct (map snd (AList.delete k (intersectionObservers s)))"
    and dm: "distinct (map snd (AList.delete k (mutationObservers s)))"
    and dj: "snd ` set (AList.delete k (intersectionObservers s)) \<inter>
             snd ` set (AList.delete k (mutationObservers s)) = {}"
    using o by (auto simp add: AList.delete_eq distinct_map_filter)
  have fi: "x \<notin> snd ` set (AList.delete k (intersectionObservers s))" if "next_id s \<le> x" for x
    using that i2 by (fastforce dest: set_delete_subset)
  have fm: "x \<notin> snd ` set (AList.delete k (mutationObservers s))" if "next_id s \<le> x" for x
    using that m2 by (fastforce dest: set_delete_subset)
  have 6: "distinct (map snd (intersectionObservers ?s') @ map snd (mutationObservers ?s'))"
    using di dm dj fi [of "Suc (next_id s)"] fm [of "Suc (next_id s)"]
      fi [of "Suc (Suc (next_id s))"] fm [of "Suc (Suc (next_id s))"]
    by (cases "parentElement e") (auto simp add: io mo)
  show ?thesis
    unfolding wellformed_def using 1 2 3 4 5 6 by blast
qed

lemma wf_register: "wellformed s \<Longrightarrow> wellformed (snd (registerComponent k el qc co s))"
proof (cases el)
  case None
  then show "wellformed s \<Longrightarrow> ?thesis"
    by (simp add: registerComponent_def wellformed_def)
next
  case (Some e)
  then show "wellformed s \<Longrightarrow> ?thesis"
    by (simp add: wf_register_Some)
qed

lemma wf_setFocus: "wellformed s \<Longrightarrow> wellformed (setComponentFocus k v s)"
  by (erule wf_same_keys) (simp_all add: setComponentFocus_eq split: option.splits)

lemma wf_subscribe: "wellformed s \<Longrightarrow> wellformed (snd (subscribeToComponent k l s))"
  by (erule wf_same_keys) (simp_all add: subscribeToComponent_eq split: option.splits)

lemma wf_removeEventListener: "wellformed s \<Longrightarrow> wellformed (removeEventListener t ty h s)"
  by (simp add: wellformed_def removeEventListener_def)

lemma wf_call: "wellformed s \<Longrightarrow> wellformed (call c s)"
proof (cases c)
  case Noop
  then show "wellformed s \<Longrightarrow> ?thesis" by simp
next
  case (Teardown k el a b)
  then show "wellformed s \<Longrightarrow> ?thesis"
    by (simp add: wf_unregister wf_removeEventListener)
next
  case (Unsubscribe obj l)
  then show "wellformed s \<Longrightarrow> ?thesis"
    by (elim wf_same_keys) (simp_all add: unsub_keys del: map_map)
next
  case (GlobalCleanup a b c)
  then show "wellformed s \<Longrightarrow> ?thesis"
    by (simp add: wf_removeEventListener)
qed

lemma wf_globalFocused: "wellformed (s\<lparr>globalFocused := b\<rparr>) = wellformed s"
  by (simp add: wellformed_def)

lemma wf_notifyAll: "wellformed s \<Longrightarrow> wellformed (notifyAllComponents s)"
  by (simp add: notifyAllComponents_def fold_preserves wf_setFocus)

lemma wf_blurAll: "wellformed s \<Longrightarrow> wellformed (blurAllComponents s)"
  by (simp add: blurAllComponents_def fold_preserves wf_setFocus)

lemma wf_updateClient: "wellformed s \<Longrightarrow> wellformed (updateComponentQueryClient k qc s)"
  by (erule wf_same_keys) (simp_all add: updateComponentQueryClient_def split: option.splits)

lemma wf_updateOptions: "wellformed s \<Longrightarrow> wellformed (updateComponentOptions k o' s)"
  by (erule wf_same_keys) (simp_all add: updateComponentOptions_def split: option.splits)

lemma wf_intersection: "wellformed s \<Longrightarrow> wellformed (intersectionCallback k es s)"
  unfolding intersectionCallback_def
  by (rule fold_preserves) (simp_all add: wf_setFocus)

lemma wf_destroy: "wellformed s \<Longrightarrow> wellformed (destroy s)"
proof -
  assume w: "wellformed s"
  have w1: "wellformed (fold unregisterComponent (map fst (components s)) s)"
    by (rule fold_preserves) (simp_all add: wf_unregister w)
  have "wellformed (s'\<lparr>globalCleanup := None\<rparr>) = wellformed s'" for s'
    by (simp add: wellformed_def)
  then show ?thesis
    using w1 by (simp add: destroy_def Let_def wf_call split: option.splits)
qed

lemma reachable_wellformed: "reachable s \<Longrightarrow> wellformed s"
proof (induction rule: reachable.induct)
  case (r_new hasDocument opts)
  show ?case by (rule wf_new)
next
  case (r_mutation s k ms inDoc)
  then show ?case by (simp add: mutationCallback_def Let_def wf_unregister)
next
  case (r_mouseEnter s k)
  then show ?case by (simp add: handleMouseEnter_def wf_setFocus)
next
  case (r_mouseLeave s k inView)
  then show ?case by (simp add: handleMouseLeave_def wf_setFocus)
qed (simp_all add: wf_register wf_unregister wf_setFocus wf_subscribe wf_call
      handleVisibilityChange_def handleWindowFocus_def handleWindowBlur_def wf_notifyAll
      wf_globalFocused wf_blurAll wf_updateClient wf_updateOptions wf_intersection wf_destroy)

lemma emitted_append [simp]: "emitted s (s'\<lparr>effects := effects s @ es\<rparr>) = es"
  by (simp add: emitted_def)

lemma emitted_self [simp]: "emitted s s = []"
  by (simp add: emitted_def)

section \<open>The refresh policy\<close>

text \<open>
  Claim C1. The refresh policy is evaluated on the options of the registration spread
  over the options of the manager, which are the constructor's argument spread over the
  defaults \<open>refetchOnFocus = true\<close>, \<open>invalidateOnFocus = true\<close>,
  \<open>resetOnFocus = false\<close>, \<open>forceRefetch = true\<close>. The dispatch changes nothing but
  the log, and appends at most one cache call, the first flag that is set deciding:
  \<open>resetOnFocus\<close> resets with the filters; otherwise \<open>invalidateOnFocus\<close> invalidates
  with the refresh breadth \<open>all\<close> when \<open>forceRefetch\<close> is set and \<open>active\<close> when it is
  not; otherwise \<open>refetchOnFocus\<close> refetches with the scope \<open>active\<close>; when none of the
  three flags is set, no cache call is made. With the default configuration the call
  is an invalidation with breadth \<open>all\<close>.
\<close>

theorem handleComponentFocus_policy:
  "handleComponentFocus qc co s =
     s\<lparr>effects := effects s @ emitted s (handleComponentFocus qc co s)\<rparr> \<and>
   emitted s (handleComponentFocus qc co s) =
     (let opts = spread_optional (mgr_options s) co;
          filters = prop_value (queryFilters opts)
      in if truthy (resetOnFocus opts) then [ResetQueries qc filters]
         else if truthy (invalidateOnFocus opts) then
           [InvalidateQueries qc
              ((spread_filters filters)
                 \<lparr>refetchType := Some (if truthy (forceRefetch opts) then ''all'' else ''active'')\<rparr>)]
         else if truthy (refetchOnFocus opts) then
           [RefetchQueries qc ((spread_filters filters)\<lparr>filterType := Some ''active''\<rparr>)]
         else []) \<and>
   length (emitted s (handleComponentFocus qc co s)) \<le> 1 \<and>
   mgr_options (new_ComponentFocusManager doc ctorOptions) =
     spread_optional
       \<lparr>refetchOnFocus = Defined True, invalidateOnFocus = Defined True,
        resetOnFocus = Defined False, forceRefetch = Defined True, queryFilters = Absent\<rparr>
       ctorOptions \<and>
   emitted (new_ComponentFocusManager doc None)
       (handleComponentFocus qc None (new_ComponentFocusManager doc None)) =
     [InvalidateQueries qc
        \<lparr>filterType = None, refetchType = Some ''all'', otherFilters = []\<rparr>]"
proof -
  have m: "mgr_options (new_ComponentFocusManager doc c) = spread_optional defaultOptions c" for c
    by (cases c)
       (simp_all add: new_ComponentFocusManager_def setupGlobalFocusListener_def
          addEventListener_def Let_def spread_options_def emptyOptions_def defaultOptions_def)
  have e: "emitted t (handleComponentFocus qc c t) =
             refreshActions qc (spread_optional (mgr_options t) c)" for t c
    by (simp add: handleComponentFocus_eq)
  have 1: "handleComponentFocus qc co s =
             s\<lparr>effects := effects s @ emitted s (handleComponentFocus qc co s)\<rparr>"
    by (simp only: e) (rule handleComponentFocus_eq)
  have 2: "length (emitted s (handleComponentFocus qc co s)) \<le> 1"
    by (simp add: e refreshActions_def)
  have 3: "emitted (new_ComponentFocusManager doc None)
             (handleComponentFocus qc None (new_ComponentFocusManager doc None)) =
           [InvalidateQueries qc \<lparr>filterType = None, refetchType = Some ''all'', otherFilters = []\<rparr>]"
    by (simp add: e m refreshActions_def defaultOptions_def emptyFilters_def)
  show ?thesis
    using 1 2 3 by (simp add: e m refreshActions_def Let_def defaultOptions_def)
qed

theorem handleComponentFocus_policy_witness:
  "emitted (new_ComponentFocusManager True (Some (emptyOptions\<lparr>invalidateOnFocus := Defined False\<rparr>)))
     (handleComponentFocus 7
        (Some (emptyOptions\<lparr>queryFilters := Defined \<lparr>filterType = Some ''all'', refetchType = None,
                                                     otherFilters = [(''queryKey'', ''todos'')]\<rparr>\<rparr>))
        (new_ComponentFocusManager True (Some (emptyOptions\<lparr>invalidateOnFocus := Defined False\<rparr>)))) =
   [RefetchQueries 7 \<lparr>filterType = Some ''active'', refetchType = None,
                       otherFilters = [(''queryKey'', ''todos'')]\<rparr>]"
  using handleComponentFocus_policy
    [of 7 "Some (emptyOptions\<lparr>queryFilters := Defined \<lparr>filterType = Some ''all'', refetchType = None,
                                                     otherFilters = [(''queryKey'', ''todos'')]\<rparr>\<rparr>)"
        "new_ComponentFocusManager True (Some (emptyOptions\<lparr>invalidateOnFocus := Defined False\<rparr>))"
        True "Some (emptyOptions\<lparr>invalidateOnFocus := Defined False\<rparr>)"]
  by (simp add: Let_def spread_options_def emptyOptions_def)

text \<open>
  The dispatch does not always make a cache call: a registration that switches
  \<open>invalidateOnFocus\<close> and \<open>refetchOnFocus\<close> off under a default manager gains focus
  without any.
\<close>

theorem handleComponentFocus_no_action_counterexample:
  "emitted (new_ComponentFocusManager True None)
     (handleComponentFocus 7
        (Some \<lparr>refetchOnFocus = Defined False, invalidateOnFocus = Defined False,
               resetOnFocus = Absent, forceRefetch = Absent, queryFilters = Absent\<rparr>)
        (new_ComponentFocusManager True None)) = []"
  by (simp add: handleComponentFocus_eq refreshActions_def new_ComponentFocusManager_def
        setupGlobalFocusListener_def addEventListener_def Let_def spread_options_def
        emptyOptions_def defaultOptions_def)

section \<open>Focus transitions\<close>

text \<open>The example manager, evaluated.\<close>

lemma exManager_eq:
  "exManager =
   \<lparr>components =
      [(''a'', \<lparr>focused = False, queryClient = Some 7, listeners = [1, 2], options = None, ident = 3\<rparr>),
       (''b'', \<lparr>focused = True, queryClient = None, listeners = [3], options = None, ident = 8\<rparr>)],
    globalFocused = True, intersectionObservers = [(''a'', 4), (''b'', 9)],
    mutationObservers = [(''a'', 5)],
    mgr_options = defaultOptions,
    globalCleanup = Some (GlobalCleanup 0 1 2),
    eventListeners =
      [(Document, ''visibilitychange'', 0), (Window, ''focus'', 1), (Window, ''blur'', 2),
       (Element 10, ''mouseenter'', 6), (Element 10, ''mouseleave'', 7),
       (Element 20, ''mouseenter'', 10), (Element 20, ''mouseleave'', 11)],
    next_id = 12,
    effects =
      [IOObserve 4 10, MOObserve 5 11, Notify 1 False, Notify 2 False,
       IOObserve 9 20, Notify 3 False, Notify 3 True]\<rparr>"
proof -
  define s0 where "s0 = new_ComponentFocusManager True None"
  define s1 where "s1 = snd (registerComponent ''a'' (Some \<lparr>node = 10, parentElement = Some 11\<rparr>)
                      (Some 7) None s0)"
  define s2 where "s2 = snd (subscribeToComponent ''a'' 1 s1)"
  define s3 where "s3 = snd (subscribeToComponent ''a'' 2 s2)"
  define s4 where "s4 = snd (registerComponent ''b'' (Some \<lparr>node = 20, parentElement = None\<rparr>)
                      None None s3)"
  define s5 where "s5 = snd (subscribeToComponent ''b'' 3 s4)"
  have e0: "s0 = \<lparr>components = [], globalFocused = True, intersectionObservers = [],
      mutationObservers = [], mgr_options = defaultOptions,
      globalCleanup = Some (GlobalCleanup 0 1 2),
      eventListeners =
        [(Document, ''visibilitychange'', 0), (Window, ''focus'', 1), (Window, ''blur'', 2)],
      next_id = 3, effects = []\<rparr>"
    by (simp add: s0_def new_ComponentFocusManager_def setupGlobalFocusListener_def
          addEventListener_def Let_def set_add_def spread_options_def emptyOptions_def
          defaultOptions_def eval_nat_numeral)
  have e1: "s1 = \<lparr>components =
        [(''a'', \<lparr>focused = False, queryClient = Some 7, listeners = [], options = None, ident = 3\<rparr>)],
      globalFocused = True, intersectionObservers = [(''a'', 4)],
      mutationObservers = [(''a'', 5)], mgr_options = defaultOptions,
      globalCleanup = Some (GlobalCleanup 0 1 2),
      eventListeners =
        [(Document, ''visibilitychange'', 0), (Window, ''focus'', 1), (Window, ''blur'', 2),
         (Element 10, ''mouseenter'', 6), (Element 10, ''mouseleave'', 7)],
      next_id = 8, effects = [IOObserve 4 10, MOObserve 5 11]\<rparr>"
    by (simp add: s1_def e0 registerComponent_Some_eq Let_def set_add_def newRecord_def
          eval_nat_numeral)
  have e2: "s2 = s1\<lparr>components :=
        [(''a'', \<lparr>focused = False, queryClient = Some 7, listeners = [1], options = None, ident = 3\<rparr>)],
      effects := [IOObserve 4 10, MOObserve 5 11, Notify 1 False]\<rparr>"
    by (simp add: s2_def e1 subscribeToComponent_eq set_add_def)
  have e3: "s3 = s1\<lparr>components :=
        [(''a'', \<lparr>focused = False, queryClient = Some 7, listeners = [1, 2], options = None, ident = 3\<rparr>)],
      effects := [IOObserve 4 10, MOObserve 5 11, Notify 1 False, Notify 2 False]\<rparr>"
    by (simp add: s3_def e2 e1 subscribeToComponent_eq set_add_def)
  have e4: "s4 = \<lparr>components =
        [(''a'', \<lparr>focused = False, queryClient = Some 7, listeners = [1, 2], options = None, ident = 3\<rparr>),
         (''b'', \<lparr>focused = False, queryClient = None, listeners = [], options = None, ident = 8\<rparr>)],
      globalFocused = True, intersectionObservers = [(''a'', 4), (''b'', 9)],
      mutationObservers = [(''a'', 5)], mgr_options = defaultOptions,
      globalCleanup = Some (GlobalCleanup 0 1 2),
      eventListeners =
        [(Document, ''visibilitychange'', 0), (Window, ''focus'', 1), (Window, ''blur'', 2),
         (Element 10, ''mouseenter'', 6), (Element 10, ''mouseleave'', 7),
         (Element 20, ''mouseenter'', 10), (Element 20, ''mouseleave'', 11)],
      next_id = 12,
      effects = [IOObserve 4 10, MOObserve 5 11, Notify 1 False, Notify 2 False, IOObserve 9 20]\<rparr>"
    by (simp add: s4_def e3 e1 registerComponent_Some_eq Let_def set_add_def newRecord_def
          eval_nat_numeral)
  have e5: "s5 = s4\<lparr>components :=
        [(''a'', \<lparr>focused = False, queryClient = Some 7, listeners = [1, 2], options = None, ident = 3\<rparr>),
         (''b'', \<lparr>focused = False, queryClient = None, listeners = [3], options = None, ident = 8\<rparr>)],
      effects := [IOObserve 4 10, MOObserve 5 11, Notify 1 False, Notify 2 False, IOObserve 9 20,
                  Notify 3 False]\<rparr>"
    by (simp add: s5_def e4 subscribeToComponent_eq set_add_def)
  have "exManager = setComponentFocus ''b'' True s5"
    by (simp only: exManager_def Let_def s0_def s1_def s2_def s3_def s4_def s5_def)
  also have "\<dots> = s4\<lparr>components :=
        [(''a'', \<lparr>focused = False, queryClient = Some 7, listeners = [1, 2], options = None, ident = 3\<rparr>),
         (''b'', \<lparr>focused = True, queryClient = None, listeners = [3], options = None, ident = 8\<rparr>)],
      effects := [IOObserve 4 10, MOObserve 5 11, Notify 1 False, Notify 2 False, IOObserve 9 20,
                  Notify 3 False, Notify 3 True]\<rparr>"
    by (simp add: e5 e4 setComponentFocus_eq)
  finally show ?thesis
    by (simp add: e4)
qed


lemma reachable_exManager: "reachable exManager"
  by (simp only: exManager_def Let_def) (intro reachable.intros)

lemma emitted_components [simp]: "emitted s (s'\<lparr>components := x\<rparr>) = emitted s s'"
  by (simp add: emitted_def)

lemma filter_cache_Notify: "filter is_cache_action (map (\<lambda>l. Notify l v) ls) = []"
  by (induction ls) simp_all

text \<open>
  Claim C2. For a registered key, \<^const>\<open>setComponentFocus\<close> appends to the log
  nothing when the stored state already has the new value, and otherwise one
  notification per listener, in the order of the listener set, followed by the cache
  call of the refresh-policy dispatch exactly when the new value is \<open>true\<close> and the
  record has a cache handle. On such a transition into focus the final state is the
  dispatch applied to the state in which the record is focused and every listener has
  been notified. A call that leaves focus, that repeats the stored value, or whose
  record has no cache handle makes no cache call.
\<close>

theorem setComponentFocus_dispatch:
  assumes "map_of (components s) k = Some c"
  shows "emitted s (setComponentFocus k v s) =
           (if focused c = v then []
            else map (\<lambda>l. Notify l v) (listeners c) @
                 (if v then (case queryClient c of
                               Some qc \<Rightarrow> emitted s (handleComponentFocus qc (options c) s)
                             | None \<Rightarrow> [])
                  else [])) \<and>
         (\<not> focused c \<and> v \<longrightarrow>
            (\<forall>qc. queryClient c = Some qc \<longrightarrow>
               setComponentFocus k v s =
                 handleComponentFocus qc (options c)
                   (s\<lparr>components := AList.map_entry k (\<lambda>c. c\<lparr>focused := True\<rparr>) (components s),
                      effects := effects s @ map (\<lambda>l. Notify l True) (listeners c)\<rparr>))) \<and>
         (focused c \<or> \<not> v \<or> queryClient c = None \<longrightarrow>
            filter is_cache_action (emitted s (setComponentFocus k v s)) = [])"
  using assms
  by (cases v; cases "queryClient c")
     (auto simp add: setComponentFocus_eq handleComponentFocus_eq filter_cache_Notify)

theorem setComponentFocus_dispatch_witness:
  "map_of (components exManager) ''a'' =
     Some \<lparr>focused = False, queryClient = Some 7, listeners = [1, 2], options = None, ident = 3\<rparr> \<and>
   emitted exManager (setComponentFocus ''a'' True exManager) =
     [Notify 1 True, Notify 2 True,
      InvalidateQueries 7 \<lparr>filterType = None, refetchType = Some ''all'', otherFilters = []\<rparr>]"
proof -
  have m: "map_of (components exManager) ''a'' =
     Some \<lparr>focused = False, queryClient = Some 7, listeners = [1, 2], options = None, ident = 3\<rparr>"
    by (simp add: exManager_eq)
  have h: "emitted exManager (handleComponentFocus 7 None exManager) =
     [InvalidateQueries 7 \<lparr>filterType = None, refetchType = Some ''all'', otherFilters = []\<rparr>]"
  proof -
    have "mgr_options exManager = defaultOptions"
      by (simp add: exManager_eq)
    then show ?thesis
      by (simp add: handleComponentFocus_eq refreshActions_def defaultOptions_def emptyFilters_def)
  qed
  show ?thesis
    using setComponentFocus_dispatch [OF m, of True, THEN conjunct1] m h by simp
qed

lemma filter_notification_Notify:
  "filter is_notification (map (\<lambda>l. Notify l v) ls) = map (\<lambda>l. Notify l v) ls"
  by (induction ls) simp_all

lemma filter_notification_refresh: "filter is_notification (refreshActions qc opts) = []"
  by (simp add: refreshActions_def)

lemma setComponentFocus_absent:
  "map_of (components s) k = None \<Longrightarrow> setComponentFocus k v s = s"
  by (simp add: setComponentFocus_def)

lemma setComponentFocus_same:
  assumes "map_of (components s) k = Some c" and "focused c = v"
  shows "setComponentFocus k v s = s"
proof -
  have "AList.map_entry k (\<lambda>c. c\<lparr>focused := v\<rparr>) (components s) = components s"
    using assms by (intro map_entry_triv [where v = c]) simp_all
  with assms show ?thesis
    by (simp add: setComponentFocus_eq)
qed

lemma setComponentFocus_lookup:
  "map_of (components (setComponentFocus k v s)) k' =
     (if k' = k then map_option (\<lambda>c. c\<lparr>focused := v\<rparr>) (map_of (components s) k)
      else map_of (components s) k')"
  by (cases "map_of (components s) k")
     (simp_all add: setComponentFocus_eq map_of_map_entry)

lemma setComponentFocus_twice:
  "setComponentFocus k v (setComponentFocus k v s) = setComponentFocus k v s"
proof (cases "map_of (components s) k")
  case None
  then show ?thesis by (simp add: setComponentFocus_absent)
next
  case (Some c)
  have "map_of (components (setComponentFocus k v s)) k = Some (c\<lparr>focused := v\<rparr>)"
    by (simp add: setComponentFocus_lookup Some)
  then show ?thesis
    by (rule setComponentFocus_same) simp
qed

text \<open>
  Claim C4. \<^const>\<open>setComponentFocus\<close> leaves the state as it is when the key is not
  registered. For a registered key its notifications are one per listener when the new
  value differs from the stored one and none when it does not, in which case the state
  is left as it is. A second identical call changes nothing and appends nothing to the
  log.
\<close>

theorem setComponentFocus_idempotent:
  "(map_of (components s) k = None \<longrightarrow> setComponentFocus k v s = s) \<and>
   (\<forall>c. map_of (components s) k = Some c \<longrightarrow>
      filter is_notification (emitted s (setComponentFocus k v s)) =
        (if focused c \<noteq> v then map (\<lambda>l. Notify l v) (listeners c) else []) \<and>
      (focused c = v \<longrightarrow> setComponentFocus k v s = s) \<and>
      isComponentFocused k (setComponentFocus k v s) = v) \<and>
   setComponentFocus k v (setComponentFocus k v s) = setComponentFocus k v s \<and>
   emitted (setComponentFocus k v s) (setComponentFocus k v (setComponentFocus k v s)) = []"
proof -
  have n: "filter is_notification (emitted s (setComponentFocus k v s)) =
             (if focused c \<noteq> v then map (\<lambda>l. Notify l v) (listeners c) else [])"
    if m: "map_of (components s) k = Some c" for c
  proof -
    have "emitted s (setComponentFocus k v s) =
            (if focused c = v then []
             else map (\<lambda>l. Notify l v) (listeners c) @
               (if v then (case queryClient c of None \<Rightarrow> []
                           | Some qc \<Rightarrow>
                               refreshActions qc (spread_optional (mgr_options s) (options c)))
                else []))"
      by (simp add: m setComponentFocus_eq)
    then show ?thesis
      by (cases "focused c = v"; cases v; cases "queryClient c")
         (simp_all add: filter_notification_Notify filter_notification_refresh)
  qed
  have f: "isComponentFocused k (setComponentFocus k v s) = v"
    if "map_of (components s) k = Some c" for c
    using that by (simp add: isComponentFocused_def setComponentFocus_lookup)
  have t: "setComponentFocus k v (setComponentFocus k v s) = setComponentFocus k v s"
    by (rule setComponentFocus_twice)
  have e: "emitted (setComponentFocus k v s)
             (setComponentFocus k v (setComponentFocus k v s)) = []"
    by (simp only: t emitted_self)
  show ?thesis
    using n f t e setComponentFocus_absent [of s k v] setComponentFocus_same [of s k _ v]
    by blast
qed

theorem setComponentFocus_idempotent_witness:
  "map_of (components exManager) ''a'' =
     Some \<lparr>focused = False, queryClient = Some 7, listeners = [1, 2], options = None, ident = 3\<rparr> \<and>
   filter is_notification (emitted exManager (setComponentFocus ''a'' True exManager)) =
     [Notify 1 True, Notify 2 True] \<and>
   setComponentFocus ''a'' True (setComponentFocus ''a'' True exManager) =
     setComponentFocus ''a'' True exManager \<and>
   emitted (setComponentFocus ''a'' True exManager)
     (setComponentFocus ''a'' True (setComponentFocus ''a'' True exManager)) = [] \<and>
   map_of (components exManager) ''zz'' = None \<and>
   setComponentFocus ''zz'' True exManager = exManager"
proof -
  have m: "map_of (components exManager) ''a'' =
     Some \<lparr>focused = False, queryClient = Some 7, listeners = [1, 2], options = None, ident = 3\<rparr>"
    by (simp add: exManager_eq)
  have z: "map_of (components exManager) ''zz'' = None"
    by (simp add: exManager_eq)
  show ?thesis
    using setComponentFocus_idempotent [of exManager "''a''" True]
      setComponentFocus_idempotent [of exManager "''zz''" True] m z
    by simp
qed

section \<open>The global visibility signal\<close>

lemma notifyAllComponents_hidden:
  assumes "distinct (map fst (components s))" and "\<not> globalFocused s"
  shows "notifyAllComponents s =
     s\<lparr>components := map (\<lambda>(k, c). (k, c\<lparr>focused := False\<rparr>)) (components s),
       effects := effects s @
         concat (map (\<lambda>(k, c). if focused c then map (\<lambda>l. Notify l False) (listeners c) else [])
                   (components s))\<rparr>"
  using assms blurAllComponents_eq [of s]
  by (simp add: notifyAllComponents_def blurAllComponents_def)

lemma notifyAllComponents_visible: "globalFocused s \<Longrightarrow> notifyAllComponents s = s"
  by (simp add: notifyAllComponents_def)

text \<open>
  Claim C3. The window-blur handler sets the global visibility signal to \<open>false\<close>, sets
  every registration record to unfocused and notifies, record by record in the order of
  the map, the listeners of exactly the records that were focused; nothing else is
  logged. The visibility-change handler sets the signal to whether the host reports
  \<open>visible\<close>, and then acts as the window-blur handler when it does not. The
  window-focus handler, and a visibility change to \<open>visible\<close>, set the signal to \<open>true\<close>
  and change nothing else: no record becomes focused.
\<close>

theorem global_visibility_signal:
  assumes "distinct (map fst (components s))"
  shows "handleWindowBlur s =
           s\<lparr>globalFocused := False,
             components := map (\<lambda>(k, c). (k, c\<lparr>focused := False\<rparr>)) (components s),
             effects := effects s @
               concat (map (\<lambda>(k, c). if focused c then map (\<lambda>l. Notify l False) (listeners c)
                                        else [])
                         (components s))\<rparr> \<and>
         handleVisibilityChange vs s =
           (if vs = ''visible'' then s\<lparr>globalFocused := True\<rparr> else handleWindowBlur s) \<and>
         handleWindowFocus s = s\<lparr>globalFocused := True\<rparr> \<and>
         (\<forall>k. \<not> isComponentFocused k (handleWindowBlur s)) \<and>
         (\<forall>k. isComponentFocused k (handleWindowFocus s) = isComponentFocused k s)"
proof -
  have b: "handleWindowBlur s =
           s\<lparr>globalFocused := False,
             components := map (\<lambda>(k, c). (k, c\<lparr>focused := False\<rparr>)) (components s),
             effects := effects s @
               concat (map (\<lambda>(k, c). if focused c then map (\<lambda>l. Notify l False) (listeners c)
                                        else [])
                         (components s))\<rparr>"
    using assms by (simp add: handleWindowBlur_def notifyAllComponents_hidden)
  have f: "handleWindowFocus s = s\<lparr>globalFocused := True\<rparr>"
    by (simp add: handleWindowFocus_def notifyAllComponents_visible)
  have v: "handleVisibilityChange vs s =
           (if vs = ''visible'' then s\<lparr>globalFocused := True\<rparr> else handleWindowBlur s)"
    by (simp add: handleVisibilityChange_def handleWindowBlur_def notifyAllComponents_visible)
  have nb: "\<not> isComponentFocused k (handleWindowBlur s)" for k
    by (cases "map_of (components s) k")
       (simp_all add: b isComponentFocused_def map_of_map)
  have nf: "isComponentFocused k (handleWindowFocus s) = isComponentFocused k s" for k
    by (simp add: f isComponentFocused_def)
  show ?thesis
    using b f v nb nf by blast
qed

theorem global_visibility_signal_witness:
  "distinct (map fst (components exManager)) \<and>
   isComponentFocused ''b'' exManager \<and>
   emitted exManager (handleWindowBlur exManager) = [Notify 3 False] \<and>
   \<not> isComponentFocused ''b'' (handleWindowBlur exManager) \<and>
   \<not> isGloballyFocused (handleWindowBlur exManager) \<and>
   handleWindowFocus (handleWindowBlur exManager) =
     (handleWindowBlur exManager)\<lparr>globalFocused := True\<rparr>"
proof -
  have d: "distinct (map fst (components exManager))"
    by (simp add: exManager_eq)
  have d': "distinct (map fst (components (handleWindowBlur exManager)))"
    using global_visibility_signal [OF d] d by (simp add: comp_def case_prod_beta)
  have c: "components exManager =
      [(''a'', \<lparr>focused = False, queryClient = Some 7, listeners = [1, 2], options = None, ident = 3\<rparr>),
       (''b'', \<lparr>focused = True, queryClient = None, listeners = [3], options = None, ident = 8\<rparr>)]"
    by (simp add: exManager_eq)
  have b: "isComponentFocused ''b'' exManager"
    by (simp add: isComponentFocused_def c)
  have e: "emitted exManager (handleWindowBlur exManager) = [Notify 3 False]"
    using global_visibility_signal [OF d, THEN conjunct1] by (simp add: c)
  have g: "\<not> isGloballyFocused (handleWindowBlur exManager)"
    using global_visibility_signal [OF d, THEN conjunct1] by (simp add: isGloballyFocused_def)
  have nb: "\<not> isComponentFocused ''b'' (handleWindowBlur exManager)"
    using global_visibility_signal [OF d] by blast
  have wf: "handleWindowFocus (handleWindowBlur exManager) =
              (handleWindowBlur exManager)\<lparr>globalFocused := True\<rparr>"
    using global_visibility_signal [OF d'] by blast
  show ?thesis
    using d b e g nb wf by blast
qed

section \<open>Subscriptions\<close>

lemma unsub_map_of:
  "map_of (map (\<lambda>(k, c). if g c then (k, h c) else (k, c)) xs) k =
     map_option (\<lambda>c. if g c then h c else c) (map_of xs k)"
  by (induction xs) auto

lemma unsub_map_idem:
  "map (\<lambda>(k, c). if ident c = obj then (k, c\<lparr>listeners := removeAll l (listeners c)\<rparr>) else (k, c))
     (map (\<lambda>(k, c). if ident c = obj then (k, c\<lparr>listeners := removeAll l (listeners c)\<rparr>) else (k, c)) xs) =
   map (\<lambda>(k, c). if ident c = obj then (k, c\<lparr>listeners := removeAll l (listeners c)\<rparr>) else (k, c)) xs"
  by (induction xs) auto

lemma call_Unsubscribe_twice:
  "call (Unsubscribe obj l) (call (Unsubscribe obj l) t) = call (Unsubscribe obj l) t"
  by (simp add: unsub_map_idem del: map_map)

lemma removeAll_set_add: "removeAll l (set_add l ls) = removeAll l ls"
  by (simp add: set_add_def)

lemma exManager_a:
  "map_of (components exManager) ''a'' =
     Some \<lparr>focused = False, queryClient = Some 7, listeners = [1, 2], options = None, ident = 3\<rparr>"
  by (simp add: exManager_eq)

lemma exManager_zz: "map_of (components exManager) ''zz'' = None"
  by (simp add: exManager_eq)

text \<open>
  Claim C5. On a key that is not registered, \<^const>\<open>subscribeToComponent\<close> logs the
  warning, changes nothing else and returns \<open>noop\<close>. On a registered key it adds the
  listener to the listener set of the record, calls it once with the stored focus
  state, whatever that is, and returns a closure; calling the closure takes the
  listener out of the set and logs nothing, and calling it again changes nothing.
\<close>

theorem subscribeToComponent_contract:
  "(map_of (components s) k = None \<longrightarrow>
      subscribeToComponent k l s =
        (Noop, s\<lparr>effects := effects s @ [Warn (''Component '' @ k @ '' is not registered'')]\<rparr>) \<and>
      call (fst (subscribeToComponent k l s)) t = t) \<and>
   (\<forall>c. map_of (components s) k = Some c \<longrightarrow>
      subscribeToComponent k l s =
        (Unsubscribe (ident c) l,
         s\<lparr>components :=
             AList.map_entry k (\<lambda>c. c\<lparr>listeners := set_add l (listeners c)\<rparr>) (components s),
           effects := effects s @ [Notify l (focused c)]\<rparr>) \<and>
      map_of (components (snd (subscribeToComponent k l s))) k =
        Some (c\<lparr>listeners := set_add l (listeners c)\<rparr>) \<and>
      l \<in> set (set_add l (listeners c)) \<and>
      map_of (components (call (fst (subscribeToComponent k l s))
                            (snd (subscribeToComponent k l s)))) k =
        Some (c\<lparr>listeners := removeAll l (listeners c)\<rparr>) \<and>
      emitted (snd (subscribeToComponent k l s))
        (call (fst (subscribeToComponent k l s)) (snd (subscribeToComponent k l s))) = []) \<and>
   call (fst (subscribeToComponent k l s)) (call (fst (subscribeToComponent k l s)) t) =
     call (fst (subscribeToComponent k l s)) t"
proof -
  have idem: "call (fst (subscribeToComponent k l s)) (call (fst (subscribeToComponent k l s)) t) =
     call (fst (subscribeToComponent k l s)) t"
    by (cases "map_of (components s) k")
       (simp_all only: subscribeToComponent_eq option.case fst_conv call.simps(1)
          call_Unsubscribe_twice)
  have none: "subscribeToComponent k l s =
        (Noop, s\<lparr>effects := effects s @ [Warn (''Component '' @ k @ '' is not registered'')]\<rparr>) \<and>
      call (fst (subscribeToComponent k l s)) t = t"
    if "map_of (components s) k = None"
    by (simp add: subscribeToComponent_eq that)
  have some: "subscribeToComponent k l s =
        (Unsubscribe (ident c) l,
         s\<lparr>components :=
             AList.map_entry k (\<lambda>c. c\<lparr>listeners := set_add l (listeners c)\<rparr>) (components s),
           effects := effects s @ [Notify l (focused c)]\<rparr>) \<and>
      map_of (components (snd (subscribeToComponent k l s))) k =
        Some (c\<lparr>listeners := set_add l (listeners c)\<rparr>) \<and>
      l \<in> set (set_add l (listeners c)) \<and>
      map_of (components (call (fst (subscribeToComponent k l s))
                            (snd (subscribeToComponent k l s)))) k =
        Some (c\<lparr>listeners := removeAll l (listeners c)\<rparr>) \<and>
      emitted (snd (subscribeToComponent k l s))
        (call (fst (subscribeToComponent k l s)) (snd (subscribeToComponent k l s))) = []"
    if m: "map_of (components s) k = Some c" for c
  proof -
    have 1: "subscribeToComponent k l s =
        (Unsubscribe (ident c) l,
         s\<lparr>components :=
             AList.map_entry k (\<lambda>c. c\<lparr>listeners := set_add l (listeners c)\<rparr>) (components s),
           effects := effects s @ [Notify l (focused c)]\<rparr>)"
      by (simp add: subscribeToComponent_eq m)
    have 2: "map_of (components (snd (subscribeToComponent k l s))) k =
        Some (c\<lparr>listeners := set_add l (listeners c)\<rparr>)"
      by (simp add: 1 map_of_map_entry m)
    have 3: "l \<in> set (set_add l (listeners c))"
      by (simp add: set_add_def)
    have 4: "map_of (components (call (Unsubscribe (ident c) l)
                            (snd (subscribeToComponent k l s)))) k =
        Some (c\<lparr>listeners := removeAll l (listeners c)\<rparr>)"
      using 2 by (simp add: unsub_map_of removeAll_set_add del: map_map)
    have 5: "emitted (snd (subscribeToComponent k l s))
        (call (Unsubscribe (ident c) l) (snd (subscribeToComponent k l s))) = []"
      by (simp add: emitted_def)
    have f: "fst (subscribeToComponent k l s) = Unsubscribe (ident c) l"
      by (simp add: 1)
    show ?thesis
      using 1 2 3 4 5 unfolding f by blast
  qed
  show ?thesis
    using idem none some by blast
qed

theorem subscribeToComponent_contract_witness:
  "map_of (components exManager) ''zz'' = None \<and>
   fst (subscribeToComponent ''zz'' 9 exManager) = Noop \<and>
   emitted exManager (snd (subscribeToComponent ''zz'' 9 exManager)) =
     [Warn ''Component zz is not registered''] \<and>
   map_of (components exManager) ''a'' =
     Some \<lparr>focused = False, queryClient = Some 7, listeners = [1, 2], options = None, ident = 3\<rparr> \<and>
   fst (subscribeToComponent ''a'' 9 exManager) = Unsubscribe 3 9 \<and>
   emitted exManager (snd (subscribeToComponent ''a'' 9 exManager)) = [Notify 9 False] \<and>
   map_of (components (snd (subscribeToComponent ''a'' 9 exManager))) ''a'' =
     Some \<lparr>focused = False, queryClient = Some 7, listeners = [1, 2, 9], options = None, ident = 3\<rparr> \<and>
   map_of (components (call (fst (subscribeToComponent ''a'' 9 exManager))
                         (snd (subscribeToComponent ''a'' 9 exManager)))) ''a'' =
     Some \<lparr>focused = False, queryClient = Some 7, listeners = [1, 2], options = None, ident = 3\<rparr>"
proof -
  note z = subscribeToComponent_contract [of exManager "''zz''" 9 exManager, THEN conjunct1,
      rule_format, OF exManager_zz]
  note a = subscribeToComponent_contract [of exManager "''a''" 9 exManager,
      THEN conjunct2, THEN conjunct1, rule_format, OF exManager_a]
  have 1: "fst (subscribeToComponent ''zz'' 9 exManager) = Noop"
    using z by simp
  have 2: "emitted exManager (snd (subscribeToComponent ''zz'' 9 exManager)) =
     [Warn ''Component zz is not registered'']"
    using z by simp
  have 3: "fst (subscribeToComponent ''a'' 9 exManager) = Unsubscribe 3 9"
    using a by simp
  have 4: "emitted exManager (snd (subscribeToComponent ''a'' 9 exManager)) = [Notify 9 False]"
    using a by simp
  have 5: "map_of (components (snd (subscribeToComponent ''a'' 9 exManager))) ''a'' =
     Some \<lparr>focused = False, queryClient = Some 7, listeners = [1, 2, 9], options = None, ident = 3\<rparr>"
    using a [THEN conjunct2, THEN conjunct1] by (simp add: set_add_def)
  have 6: "map_of (components (call (fst (subscribeToComponent ''a'' 9 exManager))
                         (snd (subscribeToComponent ''a'' 9 exManager)))) ''a'' =
     Some \<lparr>focused = False, queryClient = Some 7, listeners = [1, 2], options = None, ident = 3\<rparr>"
    using a [THEN conjunct2, THEN conjunct2, THEN conjunct2, THEN conjunct1] by simp
  show ?thesis
    using exManager_zz exManager_a 1 2 3 4 5 6 by blast
qed

text \<open>
  Claim C6, as the code has it. For a registered key, \<^const>\<open>setComponentFocus\<close> logs
  nothing when the value is the stored one and notifies every listener once when it is
  not; every call of \<^const>\<open>subscribeToComponent\<close>, the first for the key or a later
  one, calls the subscribing listener once with the stored state, which it leaves as
  it is.
\<close>

theorem notification_on_change_or_subscription:
  assumes "map_of (components s) k = Some c"
  shows "(focused c = v \<longrightarrow> emitted s (setComponentFocus k v s) = []) \<and>
         (focused c \<noteq> v \<longrightarrow>
            filter is_notification (emitted s (setComponentFocus k v s)) =
              map (\<lambda>l. Notify l v) (listeners c)) \<and>
         emitted s (snd (subscribeToComponent k l s)) = [Notify l (focused c)] \<and>
         isComponentFocused k (snd (subscribeToComponent k l s)) = focused c"
proof -
  have e: "emitted s (setComponentFocus k v s) =
            (if focused c = v then []
             else map (\<lambda>l. Notify l v) (listeners c) @
               (if v then (case queryClient c of None \<Rightarrow> []
                           | Some qc \<Rightarrow>
                               refreshActions qc (spread_optional (mgr_options s) (options c)))
                else []))"
    by (simp add: assms setComponentFocus_eq)
  have 1: "focused c = v \<longrightarrow> emitted s (setComponentFocus k v s) = []"
    by (simp add: e)
  have 2: "focused c \<noteq> v \<longrightarrow>
            filter is_notification (emitted s (setComponentFocus k v s)) =
              map (\<lambda>l. Notify l v) (listeners c)"
    using e
    by (cases "focused c = v"; cases v; cases "queryClient c")
       (simp_all add: filter_notification_Notify filter_notification_refresh)
  have 3: "emitted s (snd (subscribeToComponent k l s)) = [Notify l (focused c)]"
    by (simp add: assms subscribeToComponent_eq)
  have 4: "isComponentFocused k (snd (subscribeToComponent k l s)) = focused c"
    by (simp add: assms subscribeToComponent_eq isComponentFocused_def map_of_map_entry)
  show ?thesis
    using 1 2 3 4 by blast
qed

theorem notification_on_change_or_subscription_witness:
  "map_of (components exManager) ''a'' =
     Some \<lparr>focused = False, queryClient = Some 7, listeners = [1, 2], options = None, ident = 3\<rparr> \<and>
   emitted exManager (setComponentFocus ''a'' False exManager) = [] \<and>
   filter is_notification (emitted exManager (setComponentFocus ''a'' True exManager)) =
     [Notify 1 True, Notify 2 True] \<and>
   emitted exManager (snd (subscribeToComponent ''a'' 5 exManager)) = [Notify 5 False]"
  using notification_on_change_or_subscription [OF exManager_a, of False 5]
    notification_on_change_or_subscription [OF exManager_a, of True 5] exManager_a
  by simp

text \<open>
  The synchronous delivery is not limited to the first subscription of a key: key \<open>a\<close>
  of the example manager already has the listeners 1 and 2, and subscribing listener 5
  notifies it although the focus state does not change.
\<close>

theorem later_subscription_notified_counterexample:
  "\<not> (emitted exManager (snd (subscribeToComponent ''a'' 5 exManager)) \<noteq> [] \<longrightarrow>
        isComponentFocused ''a'' (snd (subscribeToComponent ''a'' 5 exManager)) \<noteq>
          isComponentFocused ''a'' exManager \<or>
        map_option listeners (map_of (components exManager) ''a'') = Some [])"
  by (simp add: subscribeToComponent_eq exManager_a isComponentFocused_def map_of_map_entry)

section \<open>Registration\<close>

lemma map_of_delete_same [simp]: "map_of (AList.delete k al) k = None"
  by (simp add: delete_conv')

lemma map_of_snoc_same: "map_of (AList.delete k al @ [(k, v)]) k = Some v"
  by (simp add: map_add_def)

lemma filter_key_delete: "filter (\<lambda>p. fst p = k) (AList.delete k al) = []"
  by (induction al) auto

lemma reachable_distinct: "reachable s \<Longrightarrow> distinct (getRegisteredComponents s)"
  using reachable_wellformed [of s] by (simp add: wellformed_def getRegisteredComponents_def)

lemma old_observer_discarded:
  assumes w: "wellformed s"
    and ob: "map_of (intersectionObservers s) k = Some ob \<or> map_of (mutationObservers s) k = Some ob"
  shows "ob \<notin> snd ` set (AList.delete k (intersectionObservers s)) \<and>
         ob \<notin> snd ` set (AList.delete k (mutationObservers s)) \<and>
         ob < next_id s"
proof -
  from w have d: "distinct (map snd (intersectionObservers s) @ map snd (mutationObservers s))"
    and i2: "\<And>p. p \<in> set (intersectionObservers s) \<Longrightarrow> snd p < next_id s"
    and m2: "\<And>p. p \<in> set (mutationObservers s) \<Longrightarrow> snd p < next_id s"
    by (simp_all add: wellformed_def)
  from d have di: "distinct (map snd (intersectionObservers s))"
    and dm: "distinct (map snd (mutationObservers s))"
    and dj: "snd ` set (intersectionObservers s) \<inter> snd ` set (mutationObservers s) = {}"
    by simp_all
  have uniq: "k' = k" if "distinct (map snd al)" "(k, ob) \<in> set al" "(k', ob) \<in> set al"
    for al :: "(ComponentKey \<times> nat) list" and k'
  proof -
    from that(1) have "inj_on snd (set al)"
      by (simp add: distinct_map)
    from inj_onD [OF this _ that(3) that(2)] show ?thesis
      by simp
  qed
  have notin: "ob \<notin> snd ` set (AList.delete k al)"
    if "distinct (map snd al)" "(k, ob) \<in> set al" for al :: "(ComponentKey \<times> nat) list"
  proof
    assume "ob \<in> snd ` set (AList.delete k al)"
    then obtain k' where k': "(k', ob) \<in> set (AList.delete k al)"
      by auto
    then have "(k', ob) \<in> set al" and "k' \<noteq> k"
      by (auto simp add: AList.delete_eq)
    with uniq [OF that] show False
      by simp
  qed
  from ob show ?thesis
  proof
    assume "map_of (intersectionObservers s) k = Some ob"
    then have mem: "(k, ob) \<in> set (intersectionObservers s)"
      by (rule map_of_SomeD)
    then have "ob \<notin> snd ` set (mutationObservers s)"
      using dj by force
    then have "ob \<notin> snd ` set (AList.delete k (mutationObservers s))"
      by (auto dest: set_delete_subset)
    with notin [OF di mem] i2 [OF mem] show ?thesis
      by simp
  next
    assume "map_of (mutationObservers s) k = Some ob"
    then have mem: "(k, ob) \<in> set (mutationObservers s)"
      by (rule map_of_SomeD)
    then have "ob \<notin> snd ` set (intersectionObservers s)"
      using dj by force
    then have "ob \<notin> snd ` set (AList.delete k (intersectionObservers s))"
      by (auto dest: set_delete_subset)
    with notin [OF dm mem] m2 [OF mem] show ?thesis
      by simp
  qed
qed

lemma exManager_observers:
  "map_of (intersectionObservers exManager) ''a'' = Some 4"
  "map_of (mutationObservers exManager) ''a'' = Some 5"
  "next_id exManager = 12"
  by (simp_all add: exManager_eq)

text \<open>
  Claim C7. In every reachable state the registered keys are pairwise different, so a
  key has at most one record. After \<^const>\<open>registerComponent\<close> with an element, the key
  has exactly one record, the fresh one, which is not focused and has no listener, and
  \<^const>\<open>isComponentFocused\<close> answers \<open>false\<close>. The log of the call starts with the
  disconnection of the intersection observer and of the mutation observer that the key
  had, if any, before the new observers start to observe; the maps then hold only the
  new observers for the key, and in a reachable state the old ones occur nowhere in
  them.
\<close>

theorem registerComponent_replaces:
  "(reachable s \<longrightarrow> distinct (getRegisteredComponents s)) \<and>
   (let s' = snd (registerComponent k (Some el) qc co s)
    in map_of (components s') k =
         Some \<lparr>focused = False, queryClient = qc, listeners = [], options = co,
               ident = next_id s\<rparr> \<and>
       \<not> isComponentFocused k s' \<and>
       length (filter (\<lambda>p. fst p = k) (components s')) = 1 \<and>
       emitted s s' =
         (case map_of (intersectionObservers s) k of Some ob \<Rightarrow> [IODisconnect ob] | None \<Rightarrow> []) @
         (case map_of (mutationObservers s) k of Some ob \<Rightarrow> [MODisconnect ob] | None \<Rightarrow> []) @
         [IOObserve (Suc (next_id s)) (node el)] @
         (case parentElement el of Some p \<Rightarrow> [MOObserve (Suc (Suc (next_id s))) p] | None \<Rightarrow> []) \<and>
       map_of (intersectionObservers s') k = Some (Suc (next_id s)) \<and>
       map_of (mutationObservers s') k =
         (case parentElement el of Some p \<Rightarrow> Some (Suc (Suc (next_id s))) | None \<Rightarrow> None) \<and>
       (reachable s \<longrightarrow>
          (\<forall>ob. map_of (intersectionObservers s) k = Some ob \<or>
                map_of (mutationObservers s) k = Some ob \<longrightarrow>
                ob \<notin> snd ` set (intersectionObservers s') \<and>
                ob \<notin> snd ` set (mutationObservers s'))))"
proof -
  let ?s' = "snd (registerComponent k (Some el) qc co s)"
  have c: "components ?s' = AList.delete k (components s) @ [(k, newRecord qc co (next_id s))]"
    by (simp add: registerComponent_Some_eq Let_def)
  have io: "intersectionObservers ?s' =
              AList.delete k (intersectionObservers s) @ [(k, Suc (next_id s))]"
    by (simp add: registerComponent_Some_eq Let_def)
  have mo: "mutationObservers ?s' =
              AList.delete k (mutationObservers s) @
                (case parentElement el of Some p \<Rightarrow> [(k, Suc (Suc (next_id s)))] | None \<Rightarrow> [])"
    by (simp add: registerComponent_Some_eq Let_def)
  have 1: "map_of (components ?s') k =
         Some \<lparr>focused = False, queryClient = qc, listeners = [], options = co,
               ident = next_id s\<rparr>"
    by (simp only: c map_of_snoc_same newRecord_def)
  have 2: "\<not> isComponentFocused k ?s'"
    by (simp add: isComponentFocused_def 1)
  have 3: "length (filter (\<lambda>p. fst p = k) (components ?s')) = 1"
    by (simp add: c filter_key_delete)
  have 4: "emitted s ?s' =
         (case map_of (intersectionObservers s) k of Some ob \<Rightarrow> [IODisconnect ob] | None \<Rightarrow> []) @
         (case map_of (mutationObservers s) k of Some ob \<Rightarrow> [MODisconnect ob] | None \<Rightarrow> []) @
         [IOObserve (Suc (next_id s)) (node el)] @
         (case parentElement el of Some p \<Rightarrow> [MOObserve (Suc (Suc (next_id s))) p] | None \<Rightarrow> [])"
    by (simp add: registerComponent_Some_eq Let_def emitted_def)
  have 5: "map_of (intersectionObservers ?s') k = Some (Suc (next_id s))"
    by (simp only: io map_of_snoc_same)
  have 6: "map_of (mutationObservers ?s') k =
         (case parentElement el of Some p \<Rightarrow> Some (Suc (Suc (next_id s))) | None \<Rightarrow> None)"
    by (cases "parentElement el") (simp_all add: mo map_add_def)
  have 7: "ob \<notin> snd ` set (intersectionObservers ?s') \<and> ob \<notin> snd ` set (mutationObservers ?s')"
    if r: "reachable s"
      and ob: "map_of (intersectionObservers s) k = Some ob \<or>
               map_of (mutationObservers s) k = Some ob" for ob
    using old_observer_discarded [OF reachable_wellformed [OF r] ob]
    by (cases "parentElement el") (auto simp add: io mo)
  show ?thesis
    unfolding Let_def using reachable_distinct [of s] 1 2 3 4 5 6 7 by blast
qed

theorem registerComponent_replaces_witness:
  "reachable exManager \<and>
   distinct (getRegisteredComponents exManager) \<and>
   map_of (intersectionObservers exManager) ''a'' = Some 4 \<and>
   emitted exManager
     (snd (registerComponent ''a'' (Some \<lparr>node = 30, parentElement = None\<rparr>) None None exManager)) =
     [IODisconnect 4, MODisconnect 5, IOObserve 13 30] \<and>
   \<not> isComponentFocused ''a''
     (snd (registerComponent ''a'' (Some \<lparr>node = 30, parentElement = None\<rparr>) None None exManager)) \<and>
   4 \<notin> snd ` set (intersectionObservers
     (snd (registerComponent ''a'' (Some \<lparr>node = 30, parentElement = None\<rparr>) None None exManager)))"
proof -
  note T = registerComponent_replaces
      [of exManager "''a''" "\<lparr>node = 30, parentElement = None\<rparr>" None None, unfolded Let_def]
  have 1: "distinct (getRegisteredComponents exManager)"
    using T reachable_exManager by blast
  have 2: "emitted exManager
     (snd (registerComponent ''a'' (Some \<lparr>node = 30, parentElement = None\<rparr>) None None exManager)) =
     [IODisconnect 4, MODisconnect 5, IOObserve 13 30]"
    using T [THEN conjunct2, THEN conjunct2, THEN conjunct2, THEN conjunct2, THEN conjunct1]
    by (simp add: exManager_observers)
  have 3: "\<not> isComponentFocused ''a''
     (snd (registerComponent ''a'' (Some \<lparr>node = 30, parentElement = None\<rparr>) None None exManager))"
    using T by blast
  have 4: "4 \<notin> snd ` set (intersectionObservers
     (snd (registerComponent ''a'' (Some \<lparr>node = 30, parentElement = None\<rparr>) None None exManager)))"
    using T reachable_exManager exManager_observers(1) by blast
  show ?thesis
    using reachable_exManager exManager_observers(1) 1 2 3 4 by blast
qed

text \<open>
  Claim C8. \<^const>\<open>registerComponent\<close> without an element logs the warning and returns
  \<open>noop\<close>: the state is the old one but for the log, so the three maps and every record
  are as before, and calling the returned function changes nothing. The method has no
  failing branch.
\<close>

theorem registerComponent_null_element:
  "registerComponent k None qc co s =
     (Noop, s\<lparr>effects := effects s @
                [Warn (''ComponentFocusManager: Element not found for component '' @ k)]\<rparr>) \<and>
   components (snd (registerComponent k None qc co s)) = components s \<and>
   intersectionObservers (snd (registerComponent k None qc co s)) = intersectionObservers s \<and>
   mutationObservers (snd (registerComponent k None qc co s)) = mutationObservers s \<and>
   getRegisteredComponents (snd (registerComponent k None qc co s)) = getRegisteredComponents s \<and>
   call (fst (registerComponent k None qc co s)) t = t"
  by (simp add: registerComponent_def emit_def getRegisteredComponents_def)

theorem registerComponent_null_element_witness:
  "registerComponent ''a'' None (Some 7) None exManager =
     (Noop, exManager\<lparr>effects := effects exManager @
                [Warn ''ComponentFocusManager: Element not found for component a'']\<rparr>) \<and>
   getRegisteredComponents (snd (registerComponent ''a'' None (Some 7) None exManager)) =
     [''a'', ''b'']"
proof -
  note T = registerComponent_null_element [of "''a''" "Some 7" None exManager exManager]
  have g: "getRegisteredComponents exManager = [''a'', ''b'']"
    by (simp add: getRegisteredComponents_def exManager_eq)
  have 1: "registerComponent ''a'' None (Some 7) None exManager =
     (Noop, exManager\<lparr>effects := effects exManager @
                [Warn ''ComponentFocusManager: Element not found for component a'']\<rparr>)"
    using T [THEN conjunct1] by simp
  have 2: "getRegisteredComponents (snd (registerComponent ''a'' None (Some 7) None exManager)) =
     [''a'', ''b'']"
    using T g by metis
  show ?thesis
    using 1 2 by blast
qed

section \<open>Unregistration and teardown\<close>

lemma registered_unregister:
  "getRegisteredComponents (unregisterComponent k s) = removeAll k (getRegisteredComponents s)"
  by (simp add: getRegisteredComponents_def unregisterComponent_eq delete_keys)

lemma registered_register:
  "getRegisteredComponents (snd (registerComponent k (Some el) qc co s)) =
     removeAll k (getRegisteredComponents s) @ [k]"
  by (simp add: getRegisteredComponents_def registerComponent_Some_eq Let_def delete_keys)

lemma registered_new: "getRegisteredComponents (new_ComponentFocusManager doc opts) = []"
  by (simp add: getRegisteredComponents_def new_ComponentFocusManager_def
        setupGlobalFocusListener_def addEventListener_def Let_def)

lemma unregisterComponent_absent:
  assumes w: "wellformed s" and k: "k \<notin> set (getRegisteredComponents s)"
  shows "unregisterComponent k s = s"
proof -
  from k have c: "k \<notin> fst ` set (components s)"
    by (simp add: getRegisteredComponents_def)
  with w have i: "k \<notin> fst ` set (intersectionObservers s)"
    and m: "k \<notin> fst ` set (mutationObservers s)"
    by (auto simp add: wellformed_def)
  from i m have "map_of (intersectionObservers s) k = None"
    and "map_of (mutationObservers s) k = None"
    by (simp_all add: map_of_eq_None_iff)
  with c i m show ?thesis
    by (simp add: unregisterComponent_eq)
qed

text \<open>
  Claim C9. \<^const>\<open>unregisterComponent\<close> deletes the key from the three maps and logs
  the disconnection of the intersection observer and of the mutation observer that the
  key had, and nothing else: no listener is notified, whether or not the record was
  focused. Afterwards the key has no record and no observer,
  \<^const>\<open>isComponentFocused\<close> answers \<open>false\<close>, and the registered keys are the old ones
  without the key, in their order. In a reachable state the call changes nothing when
  the key is not registered. After registering \<open>a\<close>, \<open>b\<close> and \<open>c\<close> on a new manager and
  unregistering \<open>b\<close>, the registered keys are \<open>a\<close> and \<open>c\<close>.
\<close>

theorem unregisterComponent_contract:
  "unregisterComponent k s =
     s\<lparr>intersectionObservers := AList.delete k (intersectionObservers s),
       mutationObservers := AList.delete k (mutationObservers s),
       components := AList.delete k (components s),
       effects := effects s @
         (case map_of (intersectionObservers s) k of Some ob \<Rightarrow> [IODisconnect ob] | None \<Rightarrow> []) @
         (case map_of (mutationObservers s) k of Some ob \<Rightarrow> [MODisconnect ob] | None \<Rightarrow> [])\<rparr> \<and>
   filter is_notification (emitted s (unregisterComponent k s)) = [] \<and>
   map_of (components (unregisterComponent k s)) k = None \<and>
   map_of (intersectionObservers (unregisterComponent k s)) k = None \<and>
   map_of (mutationObservers (unregisterComponent k s)) k = None \<and>
   \<not> isComponentFocused k (unregisterComponent k s) \<and>
   getRegisteredComponents (unregisterComponent k s) = removeAll k (getRegisteredComponents s) \<and>
   (reachable s \<and> k \<notin> set (getRegisteredComponents s) \<longrightarrow> unregisterComponent k s = s) \<and>
   getRegisteredComponents
     (unregisterComponent ''b''
       (snd (registerComponent ''c'' (Some e3) q3 o3
         (snd (registerComponent ''b'' (Some e2) q2 o2
           (snd (registerComponent ''a'' (Some e1) q1 o1
             (new_ComponentFocusManager doc opts)))))))) = [''a'', ''c'']"
proof -
  have 1: "filter is_notification (emitted s (unregisterComponent k s)) = []"
    by (cases "map_of (intersectionObservers s) k"; cases "map_of (mutationObservers s) k")
       (simp_all add: unregisterComponent_eq emitted_def)
  have 2: "map_of (components (unregisterComponent k s)) k = None"
    "map_of (intersectionObservers (unregisterComponent k s)) k = None"
    "map_of (mutationObservers (unregisterComponent k s)) k = None"
    by (simp_all add: unregisterComponent_eq)
  have 3: "\<not> isComponentFocused k (unregisterComponent k s)"
    by (simp add: isComponentFocused_def 2)
  have 4: "unregisterComponent k s = s"
    if "reachable s" "k \<notin> set (getRegisteredComponents s)"
    using that by (intro unregisterComponent_absent reachable_wellformed)
  have 5: "getRegisteredComponents
     (unregisterComponent ''b''
       (snd (registerComponent ''c'' (Some e3) q3 o3
         (snd (registerComponent ''b'' (Some e2) q2 o2
           (snd (registerComponent ''a'' (Some e1) q1 o1
             (new_ComponentFocusManager doc opts)))))))) = [''a'', ''c'']"
    by (simp add: registered_unregister registered_register registered_new)
  show ?thesis
    using unregisterComponent_eq [of k s] registered_unregister [of k s] 1 2 3 4 5 by blast
qed

theorem unregisterComponent_contract_witness:
  "reachable exManager \<and> ''zz'' \<notin> set (getRegisteredComponents exManager) \<and>
   unregisterComponent ''zz'' exManager = exManager \<and>
   isComponentFocused ''b'' exManager \<and>
   emitted exManager (unregisterComponent ''b'' exManager) = [IODisconnect 9] \<and>
   getRegisteredComponents (unregisterComponent ''b'' exManager) = [''a'']"
proof -
  have g: "getRegisteredComponents exManager = [''a'', ''b'']"
    by (simp add: getRegisteredComponents_def exManager_eq)
  then have z: "''zz'' \<notin> set (getRegisteredComponents exManager)"
    by simp
  have 1: "unregisterComponent ''zz'' exManager = exManager"
    using unregisterComponent_contract [of "''zz''" exManager] reachable_exManager z by blast
  have 2: "isComponentFocused ''b'' exManager"
    by (simp add: isComponentFocused_def exManager_eq)
  have o: "map_of (intersectionObservers exManager) ''b'' = Some 9"
    "map_of (mutationObservers exManager) ''b'' = None"
    by (simp_all add: exManager_eq)
  have 3: "emitted exManager (unregisterComponent ''b'' exManager) = [IODisconnect 9]"
    using unregisterComponent_contract [of "''b''" exManager, THEN conjunct1]
    by (simp add: o)
  have "getRegisteredComponents (unregisterComponent ''b'' exManager) =
          removeAll ''b'' (getRegisteredComponents exManager)"
    using unregisterComponent_contract [of "''b''" exManager] by blast
  then have 4: "getRegisteredComponents (unregisterComponent ''b'' exManager) = [''a'']"
    by (simp add: g)
  show ?thesis
    using reachable_exManager z 1 2 3 4 by blast
qed

lemma call_Teardown_eq:
  "call (Teardown k n a b) t =
     t\<lparr>eventListeners :=
         removeAll (Element n, ''mouseleave'', b)
           (removeAll (Element n, ''mouseenter'', a) (eventListeners t)),
       intersectionObservers := AList.delete k (intersectionObservers t),
       mutationObservers := AList.delete k (mutationObservers t),
       components := AList.delete k (components t),
       effects := effects t @
         (case map_of (intersectionObservers t) k of Some ob \<Rightarrow> [IODisconnect ob] | None \<Rightarrow> []) @
         (case map_of (mutationObservers t) k of Some ob \<Rightarrow> [MODisconnect ob] | None \<Rightarrow> [])\<rparr>"
  by (simp add: unregisterComponent_eq removeEventListener_def)

lemma removeAll_pair_idem:
  "removeAll y (removeAll x (removeAll y (removeAll x xs))) = removeAll y (removeAll x xs)"
  by (induction xs) auto

lemma call_Teardown_twice:
  "call (Teardown k n a b) (call (Teardown k n a b) t) = call (Teardown k n a b) t"
  by (simp add: call_Teardown_eq removeAll_pair_idem delete_idem del: call.simps)

lemma registerComponent_teardown:
  "fst (registerComponent k (Some el) qc co s) =
     Teardown k (node el)
       (next_id s + 2 + (case parentElement el of Some p \<Rightarrow> 1 | None \<Rightarrow> 0))
       (next_id s + 3 + (case parentElement el of Some p \<Rightarrow> 1 | None \<Rightarrow> 0))"
  by (simp add: registerComponent_Some_eq Let_def)

text \<open>
  Claim C10. The teardown returned by \<^const>\<open>registerComponent\<close> for a key, called in
  any state, deletes that key from the three maps and disconnects the observers the key
  has in that state. Called after the key was registered again, it removes the record
  of the later registration and disconnects the observers of the later registration.
  Calling it a second time gives the state of the first call.
\<close>

theorem teardown_by_key:
  "components (call (fst (registerComponent k (Some el) qc co s)) t) =
     AList.delete k (components t) \<and>
   intersectionObservers (call (fst (registerComponent k (Some el) qc co s)) t) =
     AList.delete k (intersectionObservers t) \<and>
   mutationObservers (call (fst (registerComponent k (Some el) qc co s)) t) =
     AList.delete k (mutationObservers t) \<and>
   emitted t (call (fst (registerComponent k (Some el) qc co s)) t) =
     (case map_of (intersectionObservers t) k of Some ob \<Rightarrow> [IODisconnect ob] | None \<Rightarrow> []) @
     (case map_of (mutationObservers t) k of Some ob \<Rightarrow> [MODisconnect ob] | None \<Rightarrow> []) \<and>
   map_of (components (call (fst (registerComponent k (Some el) qc co s)) t)) k = None \<and>
   (let s1 = snd (registerComponent k (Some el) qc co s);
        s2 = snd (registerComponent k (Some el') qc' co' s1);
        s3 = call (fst (registerComponent k (Some el) qc co s)) s2
    in map_of (components s2) k =
         Some \<lparr>focused = False, queryClient = qc', listeners = [], options = co',
               ident = next_id s1\<rparr> \<and>
       map_of (components s3) k = None \<and>
       getRegisteredComponents s3 = removeAll k (getRegisteredComponents s) \<and>
       emitted s2 s3 =
         [IODisconnect (Suc (next_id s1))] @
         (case parentElement el' of Some p \<Rightarrow> [MODisconnect (Suc (Suc (next_id s1)))]
          | None \<Rightarrow> [])) \<and>
   call (fst (registerComponent k (Some el) qc co s))
     (call (fst (registerComponent k (Some el) qc co s)) t) =
   call (fst (registerComponent k (Some el) qc co s)) t"
proof -
  define td where "td = fst (registerComponent k (Some el) qc co s)"
  define s1 where "s1 = snd (registerComponent k (Some el) qc co s)"
  define s2 where "s2 = snd (registerComponent k (Some el') qc' co' s1)"
  obtain a b where td: "td = Teardown k (node el) a b"
    unfolding td_def registerComponent_teardown by blast
  have f: "components (call td u) = AList.delete k (components u)"
    "intersectionObservers (call td u) = AList.delete k (intersectionObservers u)"
    "mutationObservers (call td u) = AList.delete k (mutationObservers u)"
    "emitted u (call td u) =
       (case map_of (intersectionObservers u) k of Some ob \<Rightarrow> [IODisconnect ob] | None \<Rightarrow> []) @
       (case map_of (mutationObservers u) k of Some ob \<Rightarrow> [MODisconnect ob] | None \<Rightarrow> [])" for u
    by (simp_all add: td call_Teardown_eq emitted_def del: call.simps)
  have n: "map_of (components (call td u)) k = None" for u
    by (simp add: f)
  have c2: "components s2 = AList.delete k (components s1) @ [(k, newRecord qc' co' (next_id s1))]"
    and io2: "intersectionObservers s2 =
                AList.delete k (intersectionObservers s1) @ [(k, Suc (next_id s1))]"
    and mo2: "mutationObservers s2 =
                AList.delete k (mutationObservers s1) @
                  (case parentElement el' of Some p \<Rightarrow> [(k, Suc (Suc (next_id s1)))] | None \<Rightarrow> [])"
    by (simp_all add: s2_def registerComponent_Some_eq Let_def)
  have 1: "map_of (components s2) k =
         Some \<lparr>focused = False, queryClient = qc', listeners = [], options = co',
               ident = next_id s1\<rparr>"
    by (simp add: c2 map_add_def newRecord_def)
  have g: "getRegisteredComponents (call td s2) = removeAll k (getRegisteredComponents s)"
    by (simp add: getRegisteredComponents_def f c2 delete_keys s1_def registerComponent_Some_eq
          Let_def)
  have i: "map_of (intersectionObservers s2) k = Some (Suc (next_id s1))"
    by (simp add: io2 map_add_def)
  have m: "map_of (mutationObservers s2) k =
             (case parentElement el' of Some p \<Rightarrow> Some (Suc (Suc (next_id s1))) | None \<Rightarrow> None)"
    by (cases "parentElement el'") (simp_all add: mo2 map_add_def)
  have e: "emitted s2 (call td s2) =
         [IODisconnect (Suc (next_id s1))] @
         (case parentElement el' of Some p \<Rightarrow> [MODisconnect (Suc (Suc (next_id s1)))]
          | None \<Rightarrow> [])"
    by (cases "parentElement el'") (simp_all add: f i m)
  have t: "call td (call td u) = call td u" for u
    unfolding td by (rule call_Teardown_twice)
  show ?thesis
    unfolding Let_def td_def [symmetric] s1_def [symmetric] s2_def [symmetric]
    using f [of t] n [of t] n [of s2] 1 g e t [of t] by blast
qed


theorem teardown_by_key_witness:
  "(let s0 = new_ComponentFocusManager True None;
        td = fst (registerComponent ''a'' (Some \<lparr>node = 10, parentElement = Some 11\<rparr>) (Some 7) None s0);
        s1 = snd (registerComponent ''a'' (Some \<lparr>node = 10, parentElement = Some 11\<rparr>) (Some 7) None s0);
        s2 = snd (registerComponent ''a'' (Some \<lparr>node = 30, parentElement = None\<rparr>) None None s1);
        s3 = call td s2
    in getRegisteredComponents s2 = [''a''] \<and>
       map_of (components s3) ''a'' = None \<and>
       getRegisteredComponents s3 = [] \<and>
       emitted s2 s3 = [IODisconnect 9] \<and>
       call td s3 = s3)"
proof -
  define s0 where "s0 = new_ComponentFocusManager True None"
  define s1 where
    "s1 = snd (registerComponent ''a'' (Some \<lparr>node = 10, parentElement = Some 11\<rparr>) (Some 7) None s0)"
  define s2 where
    "s2 = snd (registerComponent ''a'' (Some \<lparr>node = 30, parentElement = None\<rparr>) None None s1)"
  define td where
    "td = fst (registerComponent ''a'' (Some \<lparr>node = 10, parentElement = Some 11\<rparr>) (Some 7) None s0)"
  note T = teardown_by_key
      [of "''a''" "\<lparr>node = 10, parentElement = Some 11\<rparr>" "Some 7" None s0 "call td s2"
          "\<lparr>node = 30, parentElement = None\<rparr>" None None,
       unfolded Let_def, folded td_def, folded s1_def, folded s2_def]
  have n0: "next_id s0 = 3"
    by (simp add: s0_def new_ComponentFocusManager_def setupGlobalFocusListener_def
          addEventListener_def Let_def eval_nat_numeral)
  have n1: "next_id s1 = 8"
    by (simp add: s1_def registerComponent_Some_eq Let_def n0)
  have g0: "getRegisteredComponents s0 = []"
    by (simp add: s0_def registered_new)
  have 1: "getRegisteredComponents s2 = [''a'']"
    by (simp add: s2_def s1_def registered_register g0)
  have 2: "map_of (components (call td s2)) ''a'' = None"
    using T by blast
  have "getRegisteredComponents (call td s2) = removeAll ''a'' (getRegisteredComponents s0)"
    using T by blast
  then have 3: "getRegisteredComponents (call td s2) = []"
    by (simp add: g0)
  have "emitted s2 (call td s2) =
          [IODisconnect (Suc (next_id s1))] @
          (case parentElement \<lparr>node = 30, parentElement = None\<rparr> of
             Some p \<Rightarrow> [MODisconnect (Suc (Suc (next_id s1)))] | None \<Rightarrow> [])"
    using T by blast
  then have 4: "emitted s2 (call td s2) = [IODisconnect 9]"
    by (simp add: n1)
  have 5: "call td (call td s2) = call td s2"
    using teardown_by_key
      [of "''a''" "\<lparr>node = 10, parentElement = Some 11\<rparr>" "Some 7" None s0 s2,
       folded td_def]
    by blast
  show ?thesis
    unfolding Let_def s0_def [symmetric] td_def [symmetric] s1_def [symmetric]
      s2_def [symmetric]
    using 1 2 3 4 5 by blast
qed

end
